theory Spec2Isabelle
  imports Complex_Main "HOL-Library.AList" "HOL-Library.Sublist"
begin

section \<open>JavaScript arithmetic used by the sources\<close>

text \<open>
  The sources compute with JavaScript numbers.  Step indices, grid positions and octave
  numbers are integers there and are modelled as \<^typ>\<open>int\<close> and \<^typ>\<open>nat\<close>;
  frequencies are modelled twice: as \<^typ>\<open>real\<close>, the value in exact arithmetic
  that the double-precision computation approximates, and as doubles with the rounding of
  every operation written out (the functions named \<open>_double\<close>).
  \<open>Math.floor (a / b)\<close> on integers is \<open>a div b\<close>
  (HOL's integer division rounds towards minus infinity).

  JavaScript's \<open>%\<close> is the remainder of the division that truncates towards zero:
  the result has the sign of the dividend, so \<open>-1 % 12\<close> is \<open>-1\<close>.
\<close>

definition js_rem :: "int \<Rightarrow> int \<Rightarrow> int" where
  "js_rem a b = sgn a * (\<bar>a\<bar> mod \<bar>b\<bar>)"

text \<open>\<open>Math.ceil (a / b)\<close> on integers, for a positive divisor.\<close>

definition js_ceil_div :: "int \<Rightarrow> int \<Rightarrow> int" where
  "js_ceil_div a b = - ((- a) div b)"

text \<open>\<open>Math.pow (2, y)\<close> in exact arithmetic.\<close>

definition pow2 :: "real \<Rightarrow> real" where
  "pow2 y = 2 powr y"

text \<open>
  An array read \<open>xs[i]\<close>: the element at an index inside the array, and \<open>undefined\<close>
  (here \<open>None\<close>) at every other index, negative ones included.
\<close>

definition js_index :: "'a list \<Rightarrow> int \<Rightarrow> 'a option" where
  "js_index xs i = (if 0 \<le> i \<and> i < int (length xs) then Some (xs ! nat i) else None)"

section \<open>The tuning system (class \<open>TuningSystem\<close>)\<close>

record TuningSystem =
  baseFrequency :: real

text \<open>\<open>constructor(baseFrequency = 440)\<close>: an omitted argument is \<open>None\<close>.\<close>

definition new_TuningSystem :: "real option \<Rightarrow> TuningSystem" where
  "new_TuningSystem arg =
     \<lparr>baseFrequency = (case arg of None \<Rightarrow> 440 | Some b \<Rightarrow> b)\<rparr>"

definition setBaseFrequency :: "TuningSystem \<Rightarrow> real \<Rightarrow> TuningSystem" where
  "setBaseFrequency ts freq = ts\<lparr>baseFrequency := freq\<rparr>"

text \<open>
  \<open>getEDOFrequency(steps, divisions = 12, baseNote = 0)\<close>; every caller in the sources
  passes \<open>divisions\<close> and leaves \<open>baseNote\<close> at its default, so both are explicit here.
  The methods of this section are read in exact arithmetic, without rounding, overflow
  or underflow; the reading in doubles follows in the next section.
\<close>

definition getEDOFrequency :: "TuningSystem \<Rightarrow> int \<Rightarrow> int \<Rightarrow> int \<Rightarrow> real" where
  "getEDOFrequency ts steps divisions baseNote =
     (let ratio = pow2 (real_of_int (steps - baseNote) / real_of_int divisions)
      in baseFrequency ts * ratio)"

definition get12EDO :: "TuningSystem \<Rightarrow> int \<Rightarrow> real" where
  "get12EDO ts semitones = getEDOFrequency ts semitones 12 0"

definition get24EDO :: "TuningSystem \<Rightarrow> int \<Rightarrow> real" where
  "get24EDO ts steps = getEDOFrequency ts steps 24 0"

definition get31EDO :: "TuningSystem \<Rightarrow> int \<Rightarrow> real" where
  "get31EDO ts steps = getEDOFrequency ts steps 31 0"

definition get53EDO :: "TuningSystem \<Rightarrow> int \<Rightarrow> real" where
  "get53EDO ts steps = getEDOFrequency ts steps 53 0"

definition justRatios :: "real list" where
  "justRatios =
     [1 / 1, 16 / 15, 9 / 8, 6 / 5, 5 / 4, 4 / 3, 45 / 32, 3 / 2, 8 / 5, 5 / 3, 9 / 5, 15 / 8]"

text \<open>
  \<open>getJustIntonation\<close>.  A read of \<open>justRatios\<close> outside the array would give
  \<open>undefined\<close> and make the product \<open>NaN\<close>; the result is \<open>None\<close> then.
\<close>

definition getJustIntonation :: "TuningSystem \<Rightarrow> int \<Rightarrow> real option" where
  "getJustIntonation ts intervalIndex =
     (let octave = intervalIndex div 12;
          index = js_rem (js_rem intervalIndex 12 + 12) 12;
          ratio = js_index justRatios index
      in case ratio of
           None \<Rightarrow> None
         | Some r \<Rightarrow> Some (baseFrequency ts * r * pow2 (real_of_int octave)))"

text \<open>
  \<open>getFrequency\<close>: a \<open>switch\<close> on the tuning identifier, compared with \<open>===\<close>,
  whose \<open>default\<close> branch is 12-EDO.
\<close>

definition getFrequency :: "TuningSystem \<Rightarrow> string \<Rightarrow> int \<Rightarrow> real option" where
  "getFrequency ts tuningType step =
     (if tuningType = ''12-edo'' then Some (get12EDO ts step)
      else if tuningType = ''24-edo'' then Some (get24EDO ts step)
      else if tuningType = ''31-edo'' then Some (get31EDO ts step)
      else if tuningType = ''53-edo'' then Some (get53EDO ts step)
      else if tuningType = ''just'' then getJustIntonation ts step
      else Some (get12EDO ts step))"

section \<open>Double-precision evaluation of the EDO frequencies\<close>

text \<open>
  JavaScript numbers are IEEE 754 binary64 values, and every arithmetic operation returns
  the double nearest to the exact result, ties going to the even significand.  A double is
  modelled by the real number it denotes, or one of the three special values; the sign of
  zero is not tracked (no operation below distinguishes the two zeros).
\<close>

datatype double = Num real | PlusInfinity | MinusInfinity | NotANumber

text \<open>
  The doubles next to a non-zero real \<open>x\<close> are the integer multiples of
  \<open>2 powr (binade x - 52)\<close>: 53 significant bits in the normal range, and the fixed
  spacing \<open>2 powr (- 1074)\<close> below \<open>2 powr (- 1022)\<close>, where the numbers are subnormal.
\<close>

definition binade :: "real \<Rightarrow> int" where
  "binade x = max \<lfloor>log 2 \<bar>x\<bar>\<rfloor> (- 1022)"

definition round_half_even :: "real \<Rightarrow> int" where
  "round_half_even y =
     (let n = \<lfloor>y\<rfloor>; d = y - real_of_int n
      in if d < 1 / 2 then n else if 1 / 2 < d then n + 1 else if even n then n else n + 1)"

text \<open>
  Rounding to the nearest double.  A result whose rounded magnitude reaches
  \<open>2 powr 1024\<close> overflows to an infinity; a result that rounds to the multiple 0
  underflows to zero.
\<close>

definition overflow_threshold :: real where
  "overflow_threshold = 2 powr 1024"

definition to_double :: "real \<Rightarrow> double" where
  "to_double x =
     (if x = 0 then Num 0
      else let q = 2 powr real_of_int (binade x - 52);
               r = real_of_int (round_half_even (x / q)) * q
           in if overflow_threshold \<le> \<bar>r\<bar> then (if 0 < x then PlusInfinity else MinusInfinity)
              else Num r)"

text \<open>The operators \<open>/\<close> on two finite doubles and \<open>*\<close> on two doubles.\<close>

definition double_div :: "real \<Rightarrow> real \<Rightarrow> double" where
  "double_div a b =
     (if b = 0 then (if a = 0 then NotANumber else if 0 < a then PlusInfinity else MinusInfinity)
      else to_double (a / b))"

fun double_mul :: "double \<Rightarrow> double \<Rightarrow> double" where
  "double_mul (Num a) (Num b) = to_double (a * b)"
| "double_mul NotANumber y = NotANumber"
| "double_mul x NotANumber = NotANumber"
| "double_mul (Num a) PlusInfinity =
     (if a = 0 then NotANumber else if 0 < a then PlusInfinity else MinusInfinity)"
| "double_mul (Num a) MinusInfinity =
     (if a = 0 then NotANumber else if 0 < a then MinusInfinity else PlusInfinity)"
| "double_mul PlusInfinity (Num b) =
     (if b = 0 then NotANumber else if 0 < b then PlusInfinity else MinusInfinity)"
| "double_mul MinusInfinity (Num b) =
     (if b = 0 then NotANumber else if 0 < b then MinusInfinity else PlusInfinity)"
| "double_mul PlusInfinity PlusInfinity = PlusInfinity"
| "double_mul PlusInfinity MinusInfinity = MinusInfinity"
| "double_mul MinusInfinity PlusInfinity = MinusInfinity"
| "double_mul MinusInfinity MinusInfinity = PlusInfinity"

text \<open>
  \<open>Math.pow\<close> is the one operation whose result the language leaves to the
  implementation (``an implementation-approximated value''), so \<open>Math.pow (2, y)\<close> is a
  parameter \<open>pw\<close> of the functions below.  \<open>pow2_rounded\<close> is the correctly rounded
  one.  \<open>pow_accurate\<close> asks of an implementation a relative error of at most
  \<open>2 powr (- 50)\<close>, which a result within four units in the last place has, for
  exponents of magnitude up to 1022, where the power is a normal double.
\<close>

definition pow2_rounded :: "double \<Rightarrow> double" where
  "pow2_rounded y =
     (case y of
        Num t \<Rightarrow> to_double (2 powr t)
      | PlusInfinity \<Rightarrow> PlusInfinity
      | MinusInfinity \<Rightarrow> Num 0
      | NotANumber \<Rightarrow> NotANumber)"

definition pow_accurate :: "(double \<Rightarrow> double) \<Rightarrow> bool" where
  "pow_accurate pw \<longleftrightarrow>
     (\<forall>t. \<bar>t\<bar> \<le> 1022 \<longrightarrow>
        (\<exists>p. pw (Num t) = Num p \<and> \<bar>p - 2 powr t\<bar> \<le> 2 powr (- 50) * 2 powr t))"

text \<open>
  The methods of \<open>TuningSystem\<close> again, operation by operation in doubles:
  \<open>steps - baseNote\<close> is exact on the integers of the sources, the quotient, the power
  and the product are each rounded.  The stored base frequency is a finite double.
\<close>

definition getEDOFrequency_double ::
  "(double \<Rightarrow> double) \<Rightarrow> TuningSystem \<Rightarrow> int \<Rightarrow> int \<Rightarrow> int \<Rightarrow> double" where
  "getEDOFrequency_double pw ts steps divisions baseNote =
     (let ratio = pw (double_div (real_of_int (steps - baseNote)) (real_of_int divisions))
      in double_mul (Num (baseFrequency ts)) ratio)"

definition justRatios_double :: "double list" where
  "justRatios_double =
     [double_div 1 1, double_div 16 15, double_div 9 8, double_div 6 5, double_div 5 4,
      double_div 4 3, double_div 45 32, double_div 3 2, double_div 8 5, double_div 5 3,
      double_div 9 5, double_div 15 8]"

definition getJustIntonation_double ::
  "(double \<Rightarrow> double) \<Rightarrow> TuningSystem \<Rightarrow> int \<Rightarrow> double" where
  "getJustIntonation_double pw ts intervalIndex =
     (let octave = intervalIndex div 12;
          index = js_rem (js_rem intervalIndex 12 + 12) 12;
          ratio = js_index justRatios_double index
      in case ratio of
           None \<Rightarrow> NotANumber
         | Some r \<Rightarrow>
             double_mul (double_mul (Num (baseFrequency ts)) r) (pw (Num (real_of_int octave))))"

definition getFrequency_double ::
  "(double \<Rightarrow> double) \<Rightarrow> TuningSystem \<Rightarrow> string \<Rightarrow> int \<Rightarrow> double" where
  "getFrequency_double pw ts tuningType stp =
     (if tuningType = ''12-edo'' then getEDOFrequency_double pw ts stp 12 0
      else if tuningType = ''24-edo'' then getEDOFrequency_double pw ts stp 24 0
      else if tuningType = ''31-edo'' then getEDOFrequency_double pw ts stp 31 0
      else if tuningType = ''53-edo'' then getEDOFrequency_double pw ts stp 53 0
      else if tuningType = ''just'' then getJustIntonation_double pw ts stp
      else getEDOFrequency_double pw ts stp 12 0)"

text \<open>
  A computed double \<open>d\<close> agrees with the real number \<open>v\<close> within the relative
  tolerance \<open>1e-9\<close>.  An infinity or \<open>NaN\<close> agrees with no real number.
\<close>

definition within_tolerance :: "double \<Rightarrow> real \<Rightarrow> bool" where
  "within_tolerance d v =
     (case d of Num r \<Rightarrow> \<bar>r - v\<bar> \<le> \<bar>v\<bar> / 10 ^ 9 | PlusInfinity \<Rightarrow> False
      | MinusInfinity \<Rightarrow> False | NotANumber \<Rightarrow> False)"

section \<open>JavaScript strings\<close>

text \<open>
  Strings are \<^typ>\<open>string\<close>, the bytes of the UTF-8 text of the source file.  The two
  characters of the sources outside ASCII are the musical sharp sign U+266F and the
  musical flat sign U+266D, three bytes each.  In well-formed UTF-8 no character's
  encoding occurs inside or across the encodings of other characters, so searching
  for a character's bytes is searching for the character.
\<close>

definition sharp_sign :: string where
  "sharp_sign = [CHR 0xE2, CHR 0x99, CHR 0xAF]"

definition flat_sign :: string where
  "flat_sign = [CHR 0xE2, CHR 0x99, CHR 0xAD]"

text \<open>\<open>s.includes(sub)\<close>: \<open>sub\<close> occurs in \<open>s\<close> as a contiguous piece.\<close>

fun js_includes :: "string \<Rightarrow> string \<Rightarrow> bool" where
  "js_includes [] sub = (sub = [])"
| "js_includes (c # cs) sub = (prefix sub (c # cs) \<or> js_includes cs sub)"

text \<open>
  Decimal rendering of an integer, as a template literal renders it (in full, which
  JavaScript does for integers below \<open>10^21\<close>).
\<close>

definition digit_char :: "nat \<Rightarrow> char" where
  "digit_char d = ''0123456789'' ! d"

function show_nat :: "nat \<Rightarrow> string" where
  "show_nat n = (if n < 10 then [digit_char n] else show_nat (n div 10) @ [digit_char (n mod 10)])"
  by pat_completeness auto
termination
  by (relation "measure (\<lambda>n. n)") auto

declare show_nat.simps [simp del]

definition show_int :: "int \<Rightarrow> string" where
  "show_int i = (if i < 0 then CHR ''-'' # show_nat (nat (- i)) else show_nat (nat i))"

text \<open>
  A number that need not be an integer: the octave of the generic label is computed
  from \<open>parseInt\<close>, which yields \<open>NaN\<close> on text without digits, and from a division,
  which yields an infinity or \<open>NaN\<close> on a zero divisor.
\<close>

datatype jsnum = Fin int | NaN | PosInf | NegInf

definition show_jsnum :: "jsnum \<Rightarrow> string" where
  "show_jsnum x =
     (case x of Fin i \<Rightarrow> show_int i | NaN \<Rightarrow> ''NaN'' | PosInf \<Rightarrow> ''Infinity''
      | NegInf \<Rightarrow> ''-Infinity'')"

text \<open>Interpolation of an array element into a template literal.\<close>

definition show_element :: "string option \<Rightarrow> string" where
  "show_element x = (case x of None \<Rightarrow> ''undefined'' | Some s \<Rightarrow> s)"

text \<open>\<open>Math.floor(a / n)\<close> for an integer \<open>a\<close>, and \<open>x + k\<close> for an integer \<open>k\<close>.\<close>

definition js_floor_quot :: "int \<Rightarrow> jsnum \<Rightarrow> jsnum" where
  "js_floor_quot a n =
     (case n of
        Fin b \<Rightarrow>
          if b = 0 then (if a = 0 then NaN else if 0 < a then PosInf else NegInf)
          else Fin (a div b)
      | NaN \<Rightarrow> NaN
      | PosInf \<Rightarrow> Fin 0
      | NegInf \<Rightarrow> Fin 0)"

definition js_add_int :: "jsnum \<Rightarrow> int \<Rightarrow> jsnum" where
  "js_add_int x k = (case x of Fin i \<Rightarrow> Fin (i + k) | y \<Rightarrow> y)"

text \<open>\<open>s.split('-')[0]\<close>: the text before the first hyphen, all of it when there is none.\<close>

definition split_first :: "string \<Rightarrow> string" where
  "split_first s = takeWhile (\<lambda>c. c \<noteq> CHR ''-'') s"

text \<open>
  \<open>parseInt\<close> with one argument: white space is skipped, a sign is read, a prefix
  \<open>0x\<close> selects radix 16, and the longest run of digits is the value; there is no value
  without a digit.  The white space and line terminators of the language are listed by
  their UTF-8 bytes.  The value is kept exact, where JavaScript rounds it to a double
  (different above \<open>2^53\<close>, infinite beyond the range of doubles).  Minus zero is
  not told from zero; the one caller passes text without a hyphen.
\<close>

definition js_whitespace :: "string list" where
  "js_whitespace =
     [[CHR 0x09], [CHR 0x0A], [CHR 0x0B], [CHR 0x0C], [CHR 0x0D], [CHR 0x20],
      [CHR 0xC2, CHR 0xA0], [CHR 0xE1, CHR 0x9A, CHR 0x80],
      [CHR 0xE2, CHR 0x80, CHR 0x80], [CHR 0xE2, CHR 0x80, CHR 0x81],
      [CHR 0xE2, CHR 0x80, CHR 0x82], [CHR 0xE2, CHR 0x80, CHR 0x83],
      [CHR 0xE2, CHR 0x80, CHR 0x84], [CHR 0xE2, CHR 0x80, CHR 0x85],
      [CHR 0xE2, CHR 0x80, CHR 0x86], [CHR 0xE2, CHR 0x80, CHR 0x87],
      [CHR 0xE2, CHR 0x80, CHR 0x88], [CHR 0xE2, CHR 0x80, CHR 0x89],
      [CHR 0xE2, CHR 0x80, CHR 0x8A], [CHR 0xE2, CHR 0x80, CHR 0xA8],
      [CHR 0xE2, CHR 0x80, CHR 0xA9], [CHR 0xE2, CHR 0x80, CHR 0xAF],
      [CHR 0xE2, CHR 0x81, CHR 0x9F], [CHR 0xE3, CHR 0x80, CHR 0x80],
      [CHR 0xEF, CHR 0xBB, CHR 0xBF]]"

definition leading_whitespace :: "string \<Rightarrow> nat" where
  "leading_whitespace s =
     (case find (\<lambda>w. prefix w s) js_whitespace of None \<Rightarrow> 0 | Some w \<Rightarrow> length w)"

function trimStart :: "string \<Rightarrow> string" where
  "trimStart s =
     (if 0 < leading_whitespace s \<and> leading_whitespace s \<le> length s
      then trimStart (drop (leading_whitespace s) s) else s)"
  by pat_completeness auto
termination
  by (relation "measure length") auto

declare trimStart.simps [simp del]

definition digit_value :: "char \<Rightarrow> nat option" where
  "digit_value c =
     (let n = (of_char c :: nat)
      in if 48 \<le> n \<and> n \<le> 57 then Some (n - 48)
         else if 97 \<le> n \<and> n \<le> 122 then Some (n - 87)
         else if 65 \<le> n \<and> n \<le> 90 then Some (n - 55)
         else None)"

definition radix_digit :: "nat \<Rightarrow> char \<Rightarrow> nat option" where
  "radix_digit R c =
     (case digit_value c of None \<Rightarrow> None | Some d \<Rightarrow> if d < R then Some d else None)"

fun parse_digits :: "nat \<Rightarrow> string \<Rightarrow> nat option \<Rightarrow> nat option" where
  "parse_digits R [] acc = acc"
| "parse_digits R (c # cs) acc =
     (case radix_digit R c of
        None \<Rightarrow> acc
      | Some d \<Rightarrow> parse_digits R cs (Some (R * (case acc of None \<Rightarrow> 0 | Some a \<Rightarrow> a) + d)))"

definition parseInt :: "string \<Rightarrow> jsnum" where
  "parseInt str =
     (let s = trimStart str;
          negative = (s \<noteq> [] \<and> hd s = CHR ''-'');
          s1 = (if s \<noteq> [] \<and> (hd s = CHR ''+'' \<or> hd s = CHR ''-'') then tl s else s);
          hex = (take 2 s1 = ''0x'' \<or> take 2 s1 = ''0X'');
          s2 = (if hex then drop 2 s1 else s1);
          R = (if hex then 16 else 10)
      in case parse_digits R s2 None of
           None \<Rightarrow> NaN
         | Some m \<Rightarrow> Fin (if negative then - int m else int m))"

section \<open>Note labels (\<open>KeyboardLayout.getNoteNameFromStep\<close>)\<close>

definition noteNames :: "string list" where
  "noteNames =
     [''C'', ''C#'', ''D'', ''D#'', ''E'', ''F'', ''F#'', ''G'', ''G#'', ''A'', ''A#'', ''B'']"

text \<open>
  In the 24-EDO branch \<open>noteIndex / 2\<close> is only evaluated for an even \<open>noteIndex\<close>,
  where it is the integer \<open>noteIndex div 2\<close>.
\<close>

definition getNoteNameFromStep :: "int \<Rightarrow> string \<Rightarrow> string" where
  "getNoteNameFromStep stp tuningType =
     (if tuningType = ''12-edo'' \<or> tuningType = ''just'' then
        (let octave = stp div 12 + 4;
             note = js_index noteNames (js_rem (js_rem stp 12 + 12) 12)
         in show_element note @ show_int octave)
      else if tuningType = ''24-edo'' then
        (let octave = stp div 24 + 4;
             noteIndex = js_rem stp 24
         in if js_rem noteIndex 2 = 0 then
              show_element (js_index noteNames (noteIndex div 2)) @ show_int octave
            else
              (let baseNote = js_index noteNames (noteIndex div 2);
                   nextNote = js_index noteNames (js_ceil_div noteIndex 2)
               in show_element baseNote @ sharp_sign @ ''/'' @ flat_sign
                  @ show_element nextNote @ show_int octave))
      else
        (let octave = js_add_int (js_floor_quot stp (parseInt (split_first tuningType))) 4
         in ''St'' @ show_int stp @ ''O'' @ show_jsnum octave))"

section \<open>Keyboard layouts\<close>

record key =
  key_id :: string
  step :: int
  frequency :: "real option"
  noteName :: string
  isAccidental :: bool
  row :: nat
  col :: nat

text \<open>
  A counting loop \<open>for (let i = start; i < n; i++) body\<close> over a state \<open>s\<close>.
\<close>

function for_upto :: "nat \<Rightarrow> nat \<Rightarrow> (nat \<Rightarrow> 's \<Rightarrow> 's) \<Rightarrow> 's \<Rightarrow> 's" where
  "for_upto i n body s = (if i < n then for_upto (Suc i) n body (body i s) else s)"
  by pat_completeness auto
termination
  by (relation "measure (\<lambda>(i, n, body, s). n - i)") auto

declare for_upto.simps [simp del]

text \<open>
  The key pushed by one iteration of each generator.  The grid dimensions are counts
  (the application passes 4 by 12 and 6 by 8), so \<open>Math.floor(i / cols)\<close> and
  \<open>i % cols\<close> are \<open>div\<close> and \<open>mod\<close> on natural numbers.
\<close>

definition chromatic_key :: "TuningSystem \<Rightarrow> string \<Rightarrow> nat \<Rightarrow> nat \<Rightarrow> key" where
  "chromatic_key tuningSystem tuningType cols i =
     (let startNote = - 12;
          stp = startNote + int i;
          freq = getFrequency tuningSystem tuningType stp;
          nm = getNoteNameFromStep stp tuningType;
          acc = (js_includes nm ''#'' \<or> js_includes nm sharp_sign)
      in \<lparr>key_id = ''key-'' @ show_nat i, step = stp, frequency = freq, noteName = nm,
          isAccidental = acc, row = i div cols, col = i mod cols\<rparr>)"

definition chromatic_generator :: "TuningSystem \<Rightarrow> string \<Rightarrow> nat \<Rightarrow> nat \<Rightarrow> key list" where
  "chromatic_generator tuningSystem tuningType rows cols =
     (let totalKeys = rows * cols
      in for_upto 0 totalKeys
           (\<lambda>i keys. keys @ [chromatic_key tuningSystem tuningType cols i]) [])"

definition wickiHayden_key :: "TuningSystem \<Rightarrow> string \<Rightarrow> nat \<Rightarrow> nat \<Rightarrow> nat \<Rightarrow> key" where
  "wickiHayden_key tuningSystem tuningType keyId r c =
     (let stp = (int c * 7) + (int r * 2) - 12;
          freq = getFrequency tuningSystem tuningType stp;
          nm = getNoteNameFromStep stp tuningType
      in \<lparr>key_id = ''key-'' @ show_nat keyId, step = stp, frequency = freq, noteName = nm,
          isAccidental = False, row = r, col = c\<rparr>)"

definition wickiHayden_generator :: "TuningSystem \<Rightarrow> string \<Rightarrow> nat \<Rightarrow> nat \<Rightarrow> key list" where
  "wickiHayden_generator tuningSystem tuningType rows cols =
     fst (for_upto 0 rows
            (\<lambda>r. for_upto 0 cols
               (\<lambda>c (keys, keyId).
                  (keys @ [wickiHayden_key tuningSystem tuningType keyId r c], Suc keyId)))
            ([], 0))"

definition harmonic_key :: "TuningSystem \<Rightarrow> string \<Rightarrow> nat \<Rightarrow> nat \<Rightarrow> nat \<Rightarrow> key" where
  "harmonic_key tuningSystem tuningType keyId r c =
     (let stp = (int c * 4) + (int r * 3) - 12;
          freq = getFrequency tuningSystem tuningType stp;
          nm = getNoteNameFromStep stp tuningType
      in \<lparr>key_id = ''key-'' @ show_nat keyId, step = stp, frequency = freq, noteName = nm,
          isAccidental = False, row = r, col = c\<rparr>)"

definition harmonic_generator :: "TuningSystem \<Rightarrow> string \<Rightarrow> nat \<Rightarrow> nat \<Rightarrow> key list" where
  "harmonic_generator tuningSystem tuningType rows cols =
     fst (for_upto 0 rows
            (\<lambda>r. for_upto 0 cols
               (\<lambda>c (keys, keyId).
                  (keys @ [harmonic_key tuningSystem tuningType keyId r c], Suc keyId)))
            ([], 0))"

definition janko_key :: "TuningSystem \<Rightarrow> string \<Rightarrow> nat \<Rightarrow> nat \<Rightarrow> nat \<Rightarrow> key" where
  "janko_key tuningSystem tuningType keyId r c =
     (let rowOffset = int (r mod 2);
          stp = (int c * 2) + rowOffset + (int (r div 2) * 12) - 12;
          freq = getFrequency tuningSystem tuningType stp;
          nm = getNoteNameFromStep stp tuningType
      in \<lparr>key_id = ''key-'' @ show_nat keyId, step = stp, frequency = freq, noteName = nm,
          isAccidental = (js_includes nm ''#'' \<or> js_includes nm sharp_sign), row = r, col = c\<rparr>)"

definition janko_generator :: "TuningSystem \<Rightarrow> string \<Rightarrow> nat \<Rightarrow> nat \<Rightarrow> key list" where
  "janko_generator tuningSystem tuningType rows cols =
     fst (for_upto 0 rows
            (\<lambda>r. for_upto 0 cols
               (\<lambda>c (keys, keyId).
                  (keys @ [janko_key tuningSystem tuningType keyId r c], Suc keyId)))
            ([], 0))"

text \<open>
  The keys of a grid in row-major order, each built from its running number, its row
  and its column: what the nested loops of the three isomorphic generators compute.
\<close>

definition grid :: "(nat \<Rightarrow> nat \<Rightarrow> nat \<Rightarrow> 'a) \<Rightarrow> nat \<Rightarrow> nat \<Rightarrow> 'a list" where
  "grid f rows cols =
     concat (map (\<lambda>r. map (\<lambda>c. f (r * cols + c) r c) [0..<cols]) [0..<rows])"

record layout =
  name :: string
  generator :: "TuningSystem \<Rightarrow> string \<Rightarrow> nat \<Rightarrow> nat \<Rightarrow> key list"

definition chromaticLayout :: layout where
  "chromaticLayout = \<lparr>name = ''Chromatic'', generator = chromatic_generator\<rparr>"

definition wickiHaydenLayout :: layout where
  "wickiHaydenLayout = \<lparr>name = ''Wicki-Hayden'', generator = wickiHayden_generator\<rparr>"

definition harmonicLayout :: layout where
  "harmonicLayout = \<lparr>name = ''Harmonic Table'', generator = harmonic_generator\<rparr>"

definition jankoLayout :: layout where
  "jankoLayout = \<lparr>name = ''Janko'', generator = janko_generator\<rparr>"

text \<open>
  \<open>KeyboardLayout.generateKeys(tuningSystem, tuningType, rows = 6, cols = 8)\<close> on a
  \<open>KeyboardLayout\<close> whose \<open>config\<close> is the given layout; an omitted argument is \<open>None\<close>.
\<close>

definition generateKeys ::
  "layout \<Rightarrow> TuningSystem \<Rightarrow> string \<Rightarrow> nat option \<Rightarrow> nat option \<Rightarrow> key list" where
  "generateKeys config tuningSystem tuningType rows cols =
     generator config tuningSystem tuningType
       (case rows of None \<Rightarrow> 6 | Some r \<Rightarrow> r) (case cols of None \<Rightarrow> 8 | Some c \<Rightarrow> c)"

subsection \<open>The layout registry\<close>

text \<open>
  \<open>LAYOUTS\<close> is an object literal, so \<open>LAYOUTS[layoutName]\<close> finds its four own
  properties and, for any other name, the properties that every object literal inherits
  from \<open>Object.prototype\<close>; it is \<open>undefined\<close> for the remaining names.
\<close>

definition LAYOUTS :: "(string \<times> layout) list" where
  "LAYOUTS =
     [(''chromatic'', chromaticLayout), (''wicki-hayden'', wickiHaydenLayout),
      (''harmonic'', harmonicLayout), (''janko'', jankoLayout)]"

definition object_prototype_names :: "string list" where
  "object_prototype_names =
     [''constructor'', ''__defineGetter__'', ''__defineSetter__'', ''hasOwnProperty'',
      ''__lookupGetter__'', ''__lookupSetter__'', ''isPrototypeOf'',
      ''propertyIsEnumerable'', ''toString'', ''valueOf'', ''__proto__'',
      ''toLocaleString'']"

datatype 'a property = Own 'a | Inherited string | Undefined

definition get_property :: "(string \<times> 'a) list \<Rightarrow> string \<Rightarrow> 'a property" where
  "get_property obj k =
     (case map_of obj k of
        Some v \<Rightarrow> Own v
      | None \<Rightarrow> if k \<in> set object_prototype_names then Inherited k else Undefined)"

text \<open>
  \<open>getLayout\<close>: \<open>LAYOUTS[layoutName] || LAYOUTS.chromatic\<close>.  The layouts and the
  members of \<open>Object.prototype\<close> are objects and functions, hence truthy; only
  \<open>undefined\<close> selects the right operand.
\<close>

definition getLayout :: "string \<Rightarrow> layout property" where
  "getLayout layoutName =
     (case get_property LAYOUTS layoutName of
        Undefined \<Rightarrow> get_property LAYOUTS ''chromatic''
      | v \<Rightarrow> v)"

section \<open>The audio engine (class \<open>AudioEngine\<close>)\<close>

text \<open>
  The engine's state is its fields, together with the oscillators it has started.  Of
  the Web Audio objects the model records what the engine's control flow and bookkeeping
  depend on: whether \<open>audioContext\<close> and \<open>masterGain\<close> are \<open>null\<close>, the gain value
  of \<open>masterGain\<close>, and of every oscillator its waveform, its frequency and whether
  \<open>stop\<close> has been called on it.  The gain envelopes are schedules in audio time and
  are left out.

  Oscillators are objects that the map entries refer to, and a stopped oscillator exists
  on after its entry is deleted.  They are kept in a store, \<open>oscillators\<close>: the list of
  the oscillators on which \<open>start()\<close> has been called, in the order of these calls.  A
  reference to an oscillator is its position in the list.  \<open>oscillator.stop(t)\<close>
  schedules the end of the sound a tenth of a second ahead; the store records that it has
  been called.

  \<open>activeOscillators\<close> is a JavaScript \<open>Map\<close>, modelled as the list of its entries in
  insertion order: \<open>get\<close> is \<^const>\<open>map_of\<close>, \<open>set\<close> is \<^const>\<open>AList.update\<close>
  (an existing key keeps its place, a new one goes to the end) and \<open>delete\<close> is
  \<^const>\<open>AList.delete\<close>.  An entry holds the reference to its oscillator and the
  frequency stored with it.  Lines written to the console are kept in \<open>console\<close>.
\<close>

datatype audio_context = AudioContext

record gain_node =
  gain_value :: real

record oscillator_node =
  osc_type :: string
  osc_frequency :: real
  stop_scheduled :: bool

record voice =
  oscillator :: nat
  voice_frequency :: real

record AudioEngine =
  audioContext :: "audio_context option"
  masterGain :: "gain_node option"
  activeOscillators :: "(string \<times> voice) list"
  waveform :: string
  volume :: real
  initialized :: bool
  console :: "string list"
  oscillators :: "oscillator_node list"

definition new_AudioEngine :: AudioEngine where
  "new_AudioEngine =
     \<lparr>audioContext = None, masterGain = None, activeOscillators = [],
      waveform = ''sine'', volume = 0.5, initialized = False, console = [],
      oscillators = []\<rparr>"

text \<open>
  What the browser does when the engine calls it is an input of each operation.
  \<open>initialize\<close> runs four steps in its \<open>try\<close> block, and an exception at any of them
  is caught and logged: constructing the context, \<open>createGain\<close>, setting the gain of
  the new node (1 until then) and connecting it.  In \<open>playNote\<close> the creation of the oscillator and its gain
  node is one \<open>try\<close> block, which either runs through or throws before
  \<open>oscillator.start()\<close>, so that nothing is started and no entry is stored.  The calls
  of \<open>stopNote\<close> on a stored oscillator and gain node, with times read from the
  context, are taken to succeed.
\<close>

datatype init_outcome =
  ConstructorThrows | CreateGainThrows | SetGainThrows | ConnectThrows | InitSucceeds

record backend =
  init_result :: init_outcome
  synthesis_succeeds :: bool

text \<open>An exception that leaves a method, with the state at the time it is thrown.\<close>

datatype js_error = TypeError

type_synonym 'a result = "(js_error \<times> AudioEngine) + 'a"

text \<open>
  \<open>initialize\<close> is declared \<open>async\<close> but contains no \<open>await\<close>: its body has run to
  the end when the call returns.
\<close>

definition initialize :: "backend \<Rightarrow> AudioEngine \<Rightarrow> AudioEngine" where
  "initialize b e =
     (if initialized e then e
      else case init_result b of
        ConstructorThrows \<Rightarrow>
          e\<lparr>console := console e @ [''Failed to initialize audio:'']\<rparr>
      | CreateGainThrows \<Rightarrow>
          e\<lparr>audioContext := Some AudioContext,
            console := console e @ [''Failed to initialize audio:'']\<rparr>
      | SetGainThrows \<Rightarrow>
          e\<lparr>audioContext := Some AudioContext,
            masterGain := Some \<lparr>gain_value = 1\<rparr>,
            console := console e @ [''Failed to initialize audio:'']\<rparr>
      | ConnectThrows \<Rightarrow>
          e\<lparr>audioContext := Some AudioContext,
            masterGain := Some \<lparr>gain_value = volume e\<rparr>,
            console := console e @ [''Failed to initialize audio:'']\<rparr>
      | InitSucceeds \<Rightarrow>
          e\<lparr>audioContext := Some AudioContext,
            masterGain := Some \<lparr>gain_value = volume e\<rparr>,
            initialized := True,
            console := console e @ [''Audio engine initialized'']\<rparr>)"

definition setVolume :: "AudioEngine \<Rightarrow> real \<Rightarrow> AudioEngine" where
  "setVolume e v =
     (let e1 = e\<lparr>volume := v\<rparr>
      in case masterGain e1 of
           None \<Rightarrow> e1
         | Some g \<Rightarrow> e1\<lparr>masterGain := Some (g\<lparr>gain_value := v\<rparr>)\<rparr>)"

text \<open>
  \<open>setWaveform\<close>: \<open>forEach\<close> visits the entries of the map in insertion order and
  assigns \<open>data.oscillator.type\<close>, a write to the oscillator the entry refers to.
\<close>

definition set_osc_type :: "string \<Rightarrow> oscillator_node list \<Rightarrow> nat \<Rightarrow> oscillator_node list" where
  "set_osc_type w os h = os[h := (os ! h)\<lparr>osc_type := w\<rparr>]"

definition setWaveform :: "AudioEngine \<Rightarrow> string \<Rightarrow> AudioEngine" where
  "setWaveform e w =
     (let e1 = e\<lparr>waveform := w\<rparr>
      in e1\<lparr>oscillators :=
              foldl (\<lambda>os (noteId, data). set_osc_type w os (oscillator data))
                (oscillators e1) (activeOscillators e1)\<rparr>)"

text \<open>
  \<open>stopNote\<close> reads \<open>this.audioContext.currentTime\<close> once it has found an entry;
  on a \<open>null\<close> context that read throws.  Otherwise it calls \<open>stop\<close> on the
  oscillator of the entry and deletes the entry.
\<close>

definition schedule_stop :: "oscillator_node list \<Rightarrow> nat \<Rightarrow> oscillator_node list" where
  "schedule_stop os h = os[h := (os ! h)\<lparr>stop_scheduled := True\<rparr>]"

definition stopNote :: "AudioEngine \<Rightarrow> string \<Rightarrow> AudioEngine result" where
  "stopNote e noteId =
     (case map_of (activeOscillators e) noteId of
        None \<Rightarrow> Inr e
      | Some data \<Rightarrow>
          (case audioContext e of
             None \<Rightarrow> Inl (TypeError, e)
           | Some ctx \<Rightarrow>
               Inr (e\<lparr>oscillators := schedule_stop (oscillators e) (oscillator data),
                      activeOscillators := AList.delete noteId (activeOscillators e)\<rparr>)))"

text \<open>
  \<open>playNote\<close>.  \<open>this.audioContext.state\<close> is read outside any \<open>try\<close> block; on a
  \<open>null\<close> context the read throws.  On a suspended context \<open>resume()\<close> is called,
  which asks the browser to resume and changes no field of the engine.
  Inside the \<open>try\<close> block \<open>gainNode.connect(this.masterGain)\<close> throws on a \<open>null\<close>
  \<open>masterGain\<close>.  When the block runs through, a new oscillator with the engine's
  waveform and the requested frequency has been started, and the entry stored under
  \<open>noteId\<close> refers to it.
\<close>

definition playNote :: "backend \<Rightarrow> AudioEngine \<Rightarrow> string \<Rightarrow> real \<Rightarrow> AudioEngine result" where
  "playNote b e noteId freq =
     (let e1 = (if \<not> initialized e then initialize b e else e)
      in case audioContext e1 of
           None \<Rightarrow> Inl (TypeError, e1)
         | Some ctx \<Rightarrow>
             (case stopNote e1 noteId of
                Inl err \<Rightarrow> Inl err
              | Inr e2 \<Rightarrow>
                  if synthesis_succeeds b \<and> masterGain e2 \<noteq> None then
                    Inr (e2\<lparr>oscillators :=
                              oscillators e2 @
                              [\<lparr>osc_type = waveform e2, osc_frequency = freq,
                                stop_scheduled = False\<rparr>],
                            activeOscillators :=
                              AList.update noteId
                                \<lparr>oscillator = length (oscillators e2), voice_frequency = freq\<rparr>
                                (activeOscillators e2)\<rparr>)
                  else
                    Inr (e2\<lparr>console := console e2 @ [''Failed to play note:'']\<rparr>)))"

text \<open>
  \<open>stopAllNotes\<close>: \<open>forEach\<close> visits every entry of the map; each visit removes the
  entry it is at.
\<close>

fun stopNotes :: "AudioEngine \<Rightarrow> string list \<Rightarrow> AudioEngine result" where
  "stopNotes e [] = Inr e"
| "stopNotes e (noteId # rest) =
     (case stopNote e noteId of Inl err \<Rightarrow> Inl err | Inr e1 \<Rightarrow> stopNotes e1 rest)"

definition stopAllNotes :: "AudioEngine \<Rightarrow> AudioEngine result" where
  "stopAllNotes e = stopNotes e (map fst (activeOscillators e))"

definition getActiveNotes :: "AudioEngine \<Rightarrow> (string \<times> real) list" where
  "getActiveNotes e = map (\<lambda>(noteId, data). (noteId, voice_frequency data)) (activeOscillators e)"

subsection \<open>Sequences of calls\<close>

text \<open>
  The callers are event handlers: an exception ends the handler, and the next event
  finds the engine in the state the exception left.
\<close>

datatype call =
  Initialize
| PlayNote string real
| StopNote string
| StopAllNotes
| SetWaveform string
| SetVolume real

fun perform :: "backend \<Rightarrow> AudioEngine \<Rightarrow> call \<Rightarrow> AudioEngine result" where
  "perform b e Initialize = Inr (initialize b e)"
| "perform b e (PlayNote noteId freq) = playNote b e noteId freq"
| "perform b e (StopNote noteId) = stopNote e noteId"
| "perform b e StopAllNotes = stopAllNotes e"
| "perform b e (SetWaveform w) = Inr (setWaveform e w)"
| "perform b e (SetVolume v) = Inr (setVolume e v)"

definition state_after :: "AudioEngine result \<Rightarrow> AudioEngine" where
  "state_after r = (case r of Inl (err, e) \<Rightarrow> e | Inr e \<Rightarrow> e)"

fun run :: "AudioEngine \<Rightarrow> (backend \<times> call) list \<Rightarrow> AudioEngine" where
  "run e [] = e"
| "run e ((b, c) # rest) = run (state_after (perform b e c)) rest"

text \<open>The number of entries of the map for one note identifier.\<close>

definition voices_for :: "AudioEngine \<Rightarrow> string \<Rightarrow> nat" where
  "voices_for e noteId = length (filter (\<lambda>entry. fst entry = noteId) (activeOscillators e))"

text \<open>
  The oscillators that go on sounding are those that were started and on which \<open>stop\<close>
  has not been called; the registered ones are those that an entry of the map refers to.
\<close>

definition sounding :: "AudioEngine \<Rightarrow> nat list" where
  "sounding e =
     filter (\<lambda>h. \<not> stop_scheduled (oscillators e ! h)) [0..<length (oscillators e)]"

definition registered :: "AudioEngine \<Rightarrow> nat list" where
  "registered e = map (\<lambda>entry. oscillator (snd entry)) (activeOscillators e)"

text \<open>
  What holds of every state the engine can reach: the map has one entry per key, no two
  entries refer to the same oscillator, the oscillators that go on sounding are exactly
  the registered ones, a set \<open>initialized\<close> flag means that context and master gain
  exist, and entries only exist together with a context.
\<close>

definition engine_inv :: "AudioEngine \<Rightarrow> bool" where
  "engine_inv e \<longleftrightarrow>
     distinct (map fst (activeOscillators e)) \<and>
     distinct (registered e) \<and>
     set (sounding e) = set (registered e) \<and>
     (initialized e \<longrightarrow> audioContext e \<noteq> None \<and> masterGain e \<noteq> None) \<and>
     (activeOscillators e \<noteq> [] \<longrightarrow> audioContext e \<noteq> None)"

section \<open>Properties of the tuning system\<close>

lemma js_rem_nonneg: "0 \<le> a \<Longrightarrow> js_rem a b = a mod \<bar>b\<bar>"
  by (cases "a = 0") (simp_all add: js_rem_def)

lemma js_rem_neg: "a < 0 \<Longrightarrow> js_rem a b = - ((- a) mod \<bar>b\<bar>)"
  by (simp add: js_rem_def)

lemma js_rem_fold_12: "js_rem (js_rem s 12 + 12) 12 = s mod 12"
proof (cases "0 \<le> s")
  case True
  then have "js_rem s 12 = s mod 12" by (simp add: js_rem_nonneg)
  moreover have "0 \<le> s mod 12 + 12" by simp
  ultimately show ?thesis by (simp add: js_rem_nonneg)
next
  case False
  then have r: "js_rem s 12 = - ((- s) mod 12)" by (simp add: js_rem_neg)
  have "0 \<le> - ((- s) mod 12) + 12"
    using pos_mod_bound [of 12 "- s"] by simp
  then have "js_rem (js_rem s 12 + 12) 12 = (- ((- s) mod 12) + 12) mod 12"
    by (simp add: r js_rem_nonneg)
  also have "\<dots> = (- ((- s) mod 12)) mod 12" by simp
  also have "\<dots> = s mod 12" by (simp add: mod_minus_eq)
  finally show ?thesis .
qed

lemma just_index_range:
  "0 \<le> js_rem (js_rem s 12 + 12) 12 \<and> js_rem (js_rem s 12 + 12) 12 < int (length justRatios)"
  by (simp add: js_rem_fold_12 justRatios_def)

lemma getJustIntonation_eq:
  "getJustIntonation ts s =
     Some (baseFrequency ts * justRatios ! nat (s mod 12) * 2 powr real_of_int (s div 12))"
  using just_index_range [of s]
  by (simp add: getJustIntonation_def js_index_def pow2_def js_rem_fold_12)

text \<open>
  In exact arithmetic each of the identifiers \<open>12-edo\<close>, \<open>24-edo\<close>, \<open>31-edo\<close>
  and \<open>53-edo\<close> gives the base frequency times two to the power of the step over 12,
  24, 31 and 53 respectively.
\<close>

lemma getFrequency_edo:
  "getFrequency ts ''12-edo'' s = Some (baseFrequency ts * 2 powr (real_of_int s / 12)) \<and>
   getFrequency ts ''24-edo'' s = Some (baseFrequency ts * 2 powr (real_of_int s / 24)) \<and>
   getFrequency ts ''31-edo'' s = Some (baseFrequency ts * 2 powr (real_of_int s / 31)) \<and>
   getFrequency ts ''53-edo'' s = Some (baseFrequency ts * 2 powr (real_of_int s / 53))"
  by (simp add: getFrequency_def get12EDO_def get24EDO_def get31EDO_def get53EDO_def
      getEDOFrequency_def pow2_def)

text \<open>
  C2.  For every step, negative ones included, the Just Intonation frequency is the base
  frequency times the ratio at index \<open>((step % 12) + 12) % 12\<close> times two to the power
  of \<open>floor (step / 12)\<close>.  That index is the non-negative remainder of the step
  modulo 12, so it lies inside the table of ratios.  For every base frequency, step
  \<open>-1\<close> gives half the frequency of step 11, and step 0 gives the base frequency.
\<close>

theorem getFrequency_just:
  "getFrequency ts ''just'' s =
     Some (baseFrequency ts * justRatios ! nat (js_rem (js_rem s 12 + 12) 12)
           * 2 powr real_of_int (s div 12)) \<and>
   js_rem (js_rem s 12 + 12) 12 = s mod 12 \<and>
   0 \<le> js_rem (js_rem s 12 + 12) 12 \<and> js_rem (js_rem s 12 + 12) 12 < 12 \<and>
   getFrequency ts ''just'' (- 1) = map_option (\<lambda>f. f / 2) (getFrequency ts ''just'' 11) \<and>
   getFrequency ts ''just'' 0 = Some (baseFrequency ts)"
proof -
  have g: "getFrequency ts ''just'' k = getJustIntonation ts k" for k
    by (simp add: getFrequency_def)
  have a: "getFrequency ts ''just'' s =
     Some (baseFrequency ts * justRatios ! nat (js_rem (js_rem s 12 + 12) 12)
           * 2 powr real_of_int (s div 12))"
    by (simp add: g getJustIntonation_eq js_rem_fold_12)
  have b: "getFrequency ts ''just'' (- 1) = Some (baseFrequency ts * (15 / 8) * (1 / 2))"
    by (simp add: g getJustIntonation_eq justRatios_def powr_minus)
  have c: "getFrequency ts ''just'' 11 = Some (baseFrequency ts * (15 / 8))"
    by (simp add: g getJustIntonation_eq justRatios_def)
  have d: "getFrequency ts ''just'' 0 = Some (baseFrequency ts)"
    by (simp add: g getJustIntonation_eq justRatios_def)
  show ?thesis
    using a d by (simp add: b c js_rem_fold_12)
qed

text \<open>
  C8, as stated, fails: the setter performs no check, and after \<open>setBaseFrequency (-1)\<close>
  the stored base frequency is not positive.
\<close>

theorem setBaseFrequency_negative:
  "\<not> 0 < baseFrequency (setBaseFrequency (new_TuningSystem None) (- 1))"
  by (simp add: setBaseFrequency_def)

text \<open>
  C8, amended.  \<open>setBaseFrequency\<close> stores its argument unchanged, so the stored base
  frequency is strictly positive after the call exactly when the argument is.
\<close>

theorem setBaseFrequency_stores:
  "baseFrequency (setBaseFrequency ts freq) = freq \<and>
   (0 < baseFrequency (setBaseFrequency ts freq)) = (0 < freq)"
  by (simp add: setBaseFrequency_def)

section \<open>Properties of the layout generators\<close>

lemma for_upto_foldl: "for_upto i n body s = foldl (\<lambda>s i. body i s) s [i..<n]"
proof (induction i n body s rule: for_upto.induct)
  case (1 i n body s)
  show ?case
  proof (cases "i < n")
    case True
    with 1 show ?thesis
      by (subst for_upto.simps) (simp add: upt_conv_Cons)
  next
    case False
    then show ?thesis
      by (subst for_upto.simps) simp
  qed
qed

lemma for_upto_0 [simp]: "for_upto 0 0 body s = s"
  by (simp add: for_upto_foldl)

lemma for_upto_Suc: "for_upto 0 (Suc n) body s = body n (for_upto 0 n body s)"
  by (simp add: for_upto_foldl)

text \<open>A loop that pushes one element per iteration builds the list of these elements.\<close>

lemma push_loop: "for_upto 0 n (\<lambda>i keys. keys @ [f i]) ks = ks @ map f [0..<n]"
  by (induction n) (simp_all add: for_upto_Suc)

lemma counted_push_loop:
  "for_upto 0 n (\<lambda>c (keys, keyId). (keys @ [f keyId c], Suc keyId)) (ks, k)
     = (ks @ map (\<lambda>c. f (k + c) c) [0..<n], k + n)"
  by (induction n) (simp_all add: for_upto_Suc)

lemma nested_push_loop:
  "for_upto 0 rows
     (\<lambda>r. for_upto 0 cols (\<lambda>c (keys, keyId). (keys @ [f keyId r c], Suc keyId))) ([], 0)
   = (grid f rows cols, rows * cols)"
proof (induction rows)
  case 0
  show ?case by (simp add: grid_def)
next
  case (Suc n)
  show ?case
    by (simp add: for_upto_Suc Suc counted_push_loop grid_def add.commute)
qed

lemma length_grid: "length (grid f rows cols) = rows * cols"
  by (induction rows) (simp_all add: grid_def)

lemma grid_Suc: "grid f (Suc n) cols = grid f n cols @ map (\<lambda>c. f (n * cols + c) n c) [0..<cols]"
  by (simp add: grid_def)

lemma nth_grid:
  "r < rows \<Longrightarrow> c < cols \<Longrightarrow> grid f rows cols ! (r * cols + c) = f (r * cols + c) r c"
proof (induction rows)
  case 0
  then show ?case by simp
next
  case (Suc n)
  show ?case
  proof (cases "r < n")
    case True
    have "r * cols + c < Suc r * cols" using Suc.prems by simp
    also have "\<dots> \<le> n * cols" using True by (simp only: mult_le_mono1 Suc_leI)
    finally have "r * cols + c < length (grid f n cols)" by (simp add: length_grid)
    then show ?thesis
      using Suc True by (simp add: grid_Suc nth_append)
  next
    case False
    then have "r = n" using Suc.prems by simp
    then show ?thesis
      using Suc.prems by (simp add: grid_Suc nth_append length_grid)
  qed
qed

lemma chromatic_generator_eq:
  "chromatic_generator ts tt rows cols = map (chromatic_key ts tt cols) [0..<rows * cols]"
  by (simp add: chromatic_generator_def push_loop)

lemma wickiHayden_generator_eq:
  "wickiHayden_generator ts tt rows cols = grid (wickiHayden_key ts tt) rows cols"
  by (simp add: wickiHayden_generator_def nested_push_loop)

lemma harmonic_generator_eq:
  "harmonic_generator ts tt rows cols = grid (harmonic_key ts tt) rows cols"
  by (simp add: harmonic_generator_def nested_push_loop)

lemma janko_generator_eq:
  "janko_generator ts tt rows cols = grid (janko_key ts tt) rows cols"
  by (simp add: janko_generator_def nested_push_loop)

lemma chromatic_key_sel:
  "step (chromatic_key ts tt cols i) = int i - 12"
  "row (chromatic_key ts tt cols i) = i div cols"
  "col (chromatic_key ts tt cols i) = i mod cols"
  "noteName (chromatic_key ts tt cols i) = getNoteNameFromStep (int i - 12) tt"
  "isAccidental (chromatic_key ts tt cols i) =
     (js_includes (getNoteNameFromStep (int i - 12) tt) ''#'' \<or>
      js_includes (getNoteNameFromStep (int i - 12) tt) sharp_sign)"
  by (simp_all add: chromatic_key_def Let_def)

lemma wickiHayden_key_sel:
  "step (wickiHayden_key ts tt k r c) = int c * 7 + int r * 2 - 12"
  "row (wickiHayden_key ts tt k r c) = r"
  "col (wickiHayden_key ts tt k r c) = c"
  "noteName (wickiHayden_key ts tt k r c) = getNoteNameFromStep (int c * 7 + int r * 2 - 12) tt"
  "isAccidental (wickiHayden_key ts tt k r c) = False"
  by (simp_all add: wickiHayden_key_def Let_def)

lemma harmonic_key_sel:
  "step (harmonic_key ts tt k r c) = int c * 4 + int r * 3 - 12"
  "row (harmonic_key ts tt k r c) = r"
  "col (harmonic_key ts tt k r c) = c"
  "noteName (harmonic_key ts tt k r c) = getNoteNameFromStep (int c * 4 + int r * 3 - 12) tt"
  "isAccidental (harmonic_key ts tt k r c) = False"
  by (simp_all add: harmonic_key_def Let_def)

lemma janko_key_sel:
  "step (janko_key ts tt k r c) = int c * 2 + int (r mod 2) + int (r div 2) * 12 - 12"
  "row (janko_key ts tt k r c) = r"
  "col (janko_key ts tt k r c) = c"
  "noteName (janko_key ts tt k r c) =
     getNoteNameFromStep (int c * 2 + int (r mod 2) + int (r div 2) * 12 - 12) tt"
  "isAccidental (janko_key ts tt k r c) =
     (js_includes (noteName (janko_key ts tt k r c)) ''#'' \<or>
      js_includes (noteName (janko_key ts tt k r c)) sharp_sign)"
  by (simp_all add: janko_key_def Let_def)

lemma generator_simps:
  "generator chromaticLayout = chromatic_generator"
  "generator wickiHaydenLayout = wickiHayden_generator"
  "generator harmonicLayout = harmonic_generator"
  "generator jankoLayout = janko_generator"
  by (simp_all add: chromaticLayout_def wickiHaydenLayout_def harmonicLayout_def jankoLayout_def)

lemma map_offset_upt: "map (\<lambda>i. int i + a) [0..<n] = [a..a + int n - 1]"
proof (induction n)
  case 0
  show ?case by simp
next
  case (Suc n)
  have "[a..a + int (Suc n) - 1] = [a..a + int n - 1] @ [a + int n]"
    by (subst upto_rec2) (simp_all add: algebra_simps)
  then show ?case using Suc by (simp add: add.commute)
qed

lemma chromatic_steps: "map step (chromatic_generator ts tt rows cols) = [- 12..int (rows * cols) - 13]"
proof -
  have "map step (chromatic_generator ts tt rows cols) = map (\<lambda>i. int i + (- 12)) [0..<rows * cols]"
    by (simp add: chromatic_generator_eq chromatic_key_sel)
  also have "\<dots> = [- 12..- 12 + int (rows * cols) - 1]"
    by (rule map_offset_upt)
  finally show ?thesis by (simp add: algebra_simps)
qed

lemma chromatic_nth:
  assumes "r < rows" "c < cols"
  shows "chromatic_generator ts tt rows cols ! (r * cols + c) = chromatic_key ts tt cols (r * cols + c)"
proof -
  have "r * cols + c < Suc r * cols" using assms by simp
  also have "\<dots> \<le> rows * cols" using assms by (simp only: mult_le_mono1 Suc_leI)
  finally show ?thesis by (simp add: chromatic_generator_eq)
qed

lemma label_C4: "getNoteNameFromStep 0 ''12-edo'' = ''C4''"
  by (simp add: getNoteNameFromStep_def js_rem_def js_index_def noteNames_def show_element_def
      show_int_def show_nat.simps digit_char_def)

text \<open>
  C3.  Every generator produces \<open>rows * cols\<close> keys in row-major order, and for every
  position \<open>(r, c)\<close> inside the grid the key generated for it carries that row and
  column and the step of the layout's formula: \<open>r * cols + c - 12\<close> for Chromatic,
  \<open>c * 7 + r * 2 - 12\<close> for Wicki-Hayden, \<open>c * 4 + r * 3 - 12\<close> for Harmonic Table and
  \<open>c * 2 + r mod 2 + (r div 2) * 12 - 12\<close> for Janko.  The Chromatic layout with 4 rows
  and 12 columns has the steps from \<open>-12\<close> to 35 in order, its key of step 0 is
  labelled \<open>C4\<close> under 12-EDO, and Wicki-Hayden has step \<open>-12\<close> at row 0, column 0 and
  step \<open>-3\<close> at row 1, column 1.
\<close>

theorem layout_steps:
  assumes "r < rows" and "c < cols"
  shows
   "length (generator chromaticLayout ts tt rows cols) = rows * cols \<and>
    row (generator chromaticLayout ts tt rows cols ! (r * cols + c)) = r \<and>
    col (generator chromaticLayout ts tt rows cols ! (r * cols + c)) = c \<and>
    step (generator chromaticLayout ts tt rows cols ! (r * cols + c))
      = int r * int cols + int c - 12 \<and>
    length (generator wickiHaydenLayout ts tt rows cols) = rows * cols \<and>
    row (generator wickiHaydenLayout ts tt rows cols ! (r * cols + c)) = r \<and>
    col (generator wickiHaydenLayout ts tt rows cols ! (r * cols + c)) = c \<and>
    step (generator wickiHaydenLayout ts tt rows cols ! (r * cols + c))
      = int c * 7 + int r * 2 - 12 \<and>
    length (generator harmonicLayout ts tt rows cols) = rows * cols \<and>
    row (generator harmonicLayout ts tt rows cols ! (r * cols + c)) = r \<and>
    col (generator harmonicLayout ts tt rows cols ! (r * cols + c)) = c \<and>
    step (generator harmonicLayout ts tt rows cols ! (r * cols + c))
      = int c * 4 + int r * 3 - 12 \<and>
    length (generator jankoLayout ts tt rows cols) = rows * cols \<and>
    row (generator jankoLayout ts tt rows cols ! (r * cols + c)) = r \<and>
    col (generator jankoLayout ts tt rows cols ! (r * cols + c)) = c \<and>
    step (generator jankoLayout ts tt rows cols ! (r * cols + c))
      = int c * 2 + int (r mod 2) + int (r div 2) * 12 - 12 \<and>
    map step (generator chromaticLayout ts tt 4 12) = [- 12..35] \<and>
    step (generator chromaticLayout ts ''12-edo'' 4 12 ! 12) = 0 \<and>
    noteName (generator chromaticLayout ts ''12-edo'' 4 12 ! 12) = ''C4'' \<and>
    step (generator wickiHaydenLayout ts tt 6 8 ! (0 * 8 + 0)) = - 12 \<and>
    step (generator wickiHaydenLayout ts tt 6 8 ! (1 * 8 + 1)) = - 3"
proof -
  have chrom: "generator chromaticLayout ts tt rows cols ! (r * cols + c)
      = chromatic_key ts tt cols (r * cols + c)"
    using assms by (simp add: generator_simps chromatic_nth)
  have wicki: "generator wickiHaydenLayout ts tt rows cols ! (r * cols + c)
      = wickiHayden_key ts tt (r * cols + c) r c"
    using assms by (simp add: generator_simps wickiHayden_generator_eq nth_grid)
  have harm: "generator harmonicLayout ts tt rows cols ! (r * cols + c)
      = harmonic_key ts tt (r * cols + c) r c"
    using assms by (simp add: generator_simps harmonic_generator_eq nth_grid)
  have janko: "generator jankoLayout ts tt rows cols ! (r * cols + c)
      = janko_key ts tt (r * cols + c) r c"
    using assms by (simp add: generator_simps janko_generator_eq nth_grid)
  have lens: "length (generator chromaticLayout ts tt rows cols) = rows * cols"
    "length (generator wickiHaydenLayout ts tt rows cols) = rows * cols"
    "length (generator harmonicLayout ts tt rows cols) = rows * cols"
    "length (generator jankoLayout ts tt rows cols) = rows * cols"
    by (simp_all add: generator_simps chromatic_generator_eq wickiHayden_generator_eq
        harmonic_generator_eq janko_generator_eq length_grid)
  have c_fields: "row (chromatic_key ts tt cols (r * cols + c)) = r"
    "col (chromatic_key ts tt cols (r * cols + c)) = c"
    "step (chromatic_key ts tt cols (r * cols + c)) = int r * int cols + int c - 12"
    using assms by (simp_all add: chromatic_key_sel)
  have steps: "map step (generator chromaticLayout ts tt 4 12) = [- 12..35]"
    by (simp add: generator_simps chromatic_steps)
  have k12: "generator chromaticLayout ts ''12-edo'' 4 12 ! 12 = chromatic_key ts ''12-edo'' 12 12"
    using chromatic_nth [of 1 4 0 12 ts "''12-edo''"] by (simp add: generator_simps)
  have c4: "step (generator chromaticLayout ts ''12-edo'' 4 12 ! 12) = 0"
    "noteName (generator chromaticLayout ts ''12-edo'' 4 12 ! 12) = ''C4''"
    by (simp_all add: k12 chromatic_key_sel label_C4)
  have g0: "grid (wickiHayden_key ts tt) 6 8 ! (0 * 8 + 0)
      = wickiHayden_key ts tt (0 * 8 + 0) 0 0"
    by (rule nth_grid) simp_all
  have g1: "grid (wickiHayden_key ts tt) 6 8 ! (1 * 8 + 1)
      = wickiHayden_key ts tt (1 * 8 + 1) 1 1"
    by (rule nth_grid) simp_all
  have w0: "step (generator wickiHaydenLayout ts tt 6 8 ! (0 * 8 + 0)) = - 12"
    unfolding generator_simps wickiHayden_generator_eq g0 by (simp add: wickiHayden_key_sel)
  have w1: "step (generator wickiHaydenLayout ts tt 6 8 ! (1 * 8 + 1)) = - 3"
    unfolding generator_simps wickiHayden_generator_eq g1 by (simp add: wickiHayden_key_sel)
  show ?thesis
    unfolding chrom wicki harm janko
    by (simp only: lens c_fields wickiHayden_key_sel harmonic_key_sel janko_key_sel steps c4 w0 w1
        simp_thms)
qed

theorem layout_steps_witness:
  "(1::nat) < 4 \<and> (1::nat) < 12 \<and>
   length (generator jankoLayout (new_TuningSystem None) ''12-edo'' 4 12) = 48 \<and>
   step (generator chromaticLayout (new_TuningSystem None) ''12-edo'' 4 12 ! 13) = 1 \<and>
   step (generator wickiHaydenLayout (new_TuningSystem None) ''12-edo'' 4 12 ! 13) = - 3 \<and>
   step (generator harmonicLayout (new_TuningSystem None) ''12-edo'' 4 12 ! 13) = - 5 \<and>
   step (generator jankoLayout (new_TuningSystem None) ''12-edo'' 4 12 ! 13) = - 9 \<and>
   row (generator jankoLayout (new_TuningSystem None) ''12-edo'' 4 12 ! 13) = 1 \<and>
   col (generator jankoLayout (new_TuningSystem None) ''12-edo'' 4 12 ! 13) = 1"
  using layout_steps [of 1 4 1 12 "new_TuningSystem None" "''12-edo''"] by simp

subsection \<open>Accidentals, labels and the registry\<close>

lemma in_grid: "k \<in> set (grid f rows cols) \<Longrightarrow> \<exists>i r c. k = f i r c"
  by (auto simp: grid_def)

text \<open>
  C6, as stated, fails: in the Wicki-Hayden layout with 6 rows and 8 columns under
  12-EDO, the key at row 3, column 0 is labelled \<open>F#3\<close>, and its \<open>isAccidental\<close> is
  false.
\<close>

theorem isAccidental_wickiHayden_F_sharp:
  "noteName (generator wickiHaydenLayout (new_TuningSystem None) ''12-edo'' 6 8 ! 24) = ''F#3'' \<and>
   isAccidental (generator wickiHaydenLayout (new_TuningSystem None) ''12-edo'' 6 8 ! 24) \<noteq>
     (js_includes (noteName (generator wickiHaydenLayout (new_TuningSystem None) ''12-edo'' 6 8 ! 24)) ''#''
      \<or> js_includes (noteName (generator wickiHaydenLayout (new_TuningSystem None) ''12-edo'' 6 8 ! 24))
            sharp_sign)"
proof -
  have k: "generator wickiHaydenLayout (new_TuningSystem None) ''12-edo'' 6 8 ! (3 * 8 + 0)
      = wickiHayden_key (new_TuningSystem None) ''12-edo'' (3 * 8 + 0) 3 0"
    unfolding generator_simps wickiHayden_generator_eq by (rule nth_grid) simp_all
  have l: "getNoteNameFromStep (- 6) ''12-edo'' = ''F#3''"
    by (simp add: getNoteNameFromStep_def js_rem_def js_index_def noteNames_def show_element_def
        show_int_def show_nat.simps digit_char_def)
  show ?thesis
    using k by (simp add: wickiHayden_key_sel l)
qed

text \<open>
  C6, amended.  For every tuning, base frequency and grid size, every key of the
  Chromatic and of the Janko layout has \<open>isAccidental\<close> true exactly when its label
  contains \<open>#\<close> or the sharp sign; every key of the Wicki-Hayden and of the Harmonic
  Table layout has \<open>isAccidental\<close> false, whatever its label.
\<close>

theorem isAccidental_by_layout:
  "(\<forall>k \<in> set (generator chromaticLayout ts tt rows cols).
      isAccidental k = (js_includes (noteName k) ''#'' \<or> js_includes (noteName k) sharp_sign)) \<and>
   (\<forall>k \<in> set (generator jankoLayout ts tt rows cols).
      isAccidental k = (js_includes (noteName k) ''#'' \<or> js_includes (noteName k) sharp_sign)) \<and>
   (\<forall>k \<in> set (generator wickiHaydenLayout ts tt rows cols). isAccidental k = False) \<and>
   (\<forall>k \<in> set (generator harmonicLayout ts tt rows cols). isAccidental k = False)"
proof (intro conjI ballI)
  fix k assume "k \<in> set (generator chromaticLayout ts tt rows cols)"
  then obtain i where "k = chromatic_key ts tt cols i"
    by (auto simp: generator_simps chromatic_generator_eq)
  then show "isAccidental k = (js_includes (noteName k) ''#'' \<or> js_includes (noteName k) sharp_sign)"
    by (simp add: chromatic_key_sel)
next
  fix k assume "k \<in> set (generator jankoLayout ts tt rows cols)"
  then obtain i r c where "k = janko_key ts tt i r c"
    unfolding generator_simps janko_generator_eq by (blast dest: in_grid)
  then show "isAccidental k = (js_includes (noteName k) ''#'' \<or> js_includes (noteName k) sharp_sign)"
    by (simp only: janko_key_sel)
next
  fix k assume "k \<in> set (generator wickiHaydenLayout ts tt rows cols)"
  then obtain i r c where "k = wickiHayden_key ts tt i r c"
    unfolding generator_simps wickiHayden_generator_eq by (blast dest: in_grid)
  then show "isAccidental k = False"
    by (simp only: wickiHayden_key_sel)
next
  fix k assume "k \<in> set (generator harmonicLayout ts tt rows cols)"
  then obtain i r c where "k = harmonic_key ts tt i r c"
    unfolding generator_simps harmonic_generator_eq by (blast dest: in_grid)
  then show "isAccidental k = False"
    by (simp only: harmonic_key_sel)
qed

lemma label_Csharp3: "getNoteNameFromStep (- 11) ''12-edo'' = ''C#3''"
  by (simp add: getNoteNameFromStep_def js_rem_def js_index_def noteNames_def show_element_def
      show_int_def show_nat.simps digit_char_def)

theorem isAccidental_by_layout_witness:
  "noteName (generator chromaticLayout (new_TuningSystem None) ''12-edo'' 4 12 ! 1) = ''C#3'' \<and>
   isAccidental (generator chromaticLayout (new_TuningSystem None) ''12-edo'' 4 12 ! 1)"
proof -
  let ?ks = "generator chromaticLayout (new_TuningSystem None) ''12-edo'' 4 12"
  have k: "?ks ! (0 * 12 + 1) = chromatic_key (new_TuningSystem None) ''12-edo'' 12 (0 * 12 + 1)"
    unfolding generator_simps by (rule chromatic_nth) simp_all
  have nm: "noteName (?ks ! 1) = ''C#3''"
    using k by (simp add: chromatic_key_sel label_Csharp3)
  have "?ks ! 1 \<in> set ?ks"
    by (rule nth_mem) (simp add: generator_simps chromatic_generator_eq)
  with isAccidental_by_layout [of "new_TuningSystem None" "''12-edo''" 4 12]
  have acc: "isAccidental (?ks ! 1)
      = (js_includes (noteName (?ks ! 1)) ''#'' \<or> js_includes (noteName (?ks ! 1)) sharp_sign)"
    by blast
  show ?thesis unfolding acc nm by simp
qed

text \<open>
  C7 does not hold of the code.  The 24-EDO branch indexes the note names with
  \<open>step % 24\<close>, which is negative for a negative step, and with
  \<open>Math.ceil(noteIndex / 2)\<close>, which is 12 for \<open>noteIndex = 23\<close>; the 12-EDO branch
  folds its index into the table, this one does not.  Step \<open>-12\<close>, the first key of
  the Chromatic layout, is labelled \<open>undefined3\<close>; step \<open>-11\<close> is labelled with
  \<open>undefined\<close> on both sides, and step 23 with \<open>undefined\<close> for its upper neighbour.
\<close>

theorem getNoteNameFromStep_24edo_undefined:
  "getNoteNameFromStep (- 12) ''24-edo'' = ''undefined3'' \<and>
   getNoteNameFromStep (- 11) ''24-edo''
     = ''undefined'' @ sharp_sign @ ''/'' @ flat_sign @ ''undefined3'' \<and>
   getNoteNameFromStep 23 ''24-edo'' = ''B'' @ sharp_sign @ ''/'' @ flat_sign @ ''undefined4'' \<and>
   noteName (generator chromaticLayout (new_TuningSystem None) ''24-edo'' 4 12 ! 0) = ''undefined3''"
proof -
  have a: "getNoteNameFromStep (- 12) ''24-edo'' = ''undefined3''"
    by (simp add: getNoteNameFromStep_def js_rem_def js_index_def noteNames_def show_element_def
        show_int_def show_nat.simps digit_char_def)
  have b: "getNoteNameFromStep (- 11) ''24-edo''
     = ''undefined'' @ sharp_sign @ ''/'' @ flat_sign @ ''undefined3''"
    by (simp add: getNoteNameFromStep_def js_rem_def js_index_def js_ceil_div_def noteNames_def
        show_element_def show_int_def show_nat.simps digit_char_def)
  have c: "getNoteNameFromStep 23 ''24-edo'' = ''B'' @ sharp_sign @ ''/'' @ flat_sign @ ''undefined4''"
    by (simp add: getNoteNameFromStep_def js_rem_def js_index_def js_ceil_div_def noteNames_def
        show_element_def show_int_def show_nat.simps digit_char_def)
  have k: "generator chromaticLayout (new_TuningSystem None) ''24-edo'' 4 12 ! (0 * 12 + 0)
      = chromatic_key (new_TuningSystem None) ''24-edo'' 12 (0 * 12 + 0)"
    unfolding generator_simps by (rule chromatic_nth) simp_all
  have d: "noteName (generator chromaticLayout (new_TuningSystem None) ''24-edo'' 4 12 ! 0)
      = ''undefined3''"
    using k by (simp add: chromatic_key_sel a)
  show ?thesis using a b c d by simp
qed

text \<open>
  C9 does not hold of the code for layout names.  \<open>LAYOUTS\<close> is an object literal, and
  for a name such as \<open>constructor\<close> or \<open>toString\<close> the lookup finds the member
  inherited from \<open>Object.prototype\<close>, which is truthy: \<open>getLayout\<close> returns it and not
  the chromatic layout.
\<close>

theorem getLayout_inherited:
  "getLayout ''constructor'' = Inherited ''constructor'' \<and>
   getLayout ''toString'' = Inherited ''toString'' \<and>
   getLayout ''constructor'' \<noteq> Own chromaticLayout"
  by (simp add: getLayout_def get_property_def LAYOUTS_def object_prototype_names_def)

text \<open>
  The fallbacks that do hold: every unrecognised tuning identifier is treated as
  12-EDO, and every layout name that is neither registered nor a member of
  \<open>Object.prototype\<close> gives the chromatic layout.
\<close>

lemma getFrequency_unknown:
  "tt \<notin> {''12-edo'', ''24-edo'', ''31-edo'', ''53-edo'', ''just''} \<Longrightarrow>
   getFrequency ts tt s = getFrequency ts ''12-edo'' s"
  by (simp add: getFrequency_def)

lemma getLayout_unknown:
  "nm \<notin> {''chromatic'', ''wicki-hayden'', ''harmonic'', ''janko''} \<Longrightarrow>
   nm \<notin> set object_prototype_names \<Longrightarrow> getLayout nm = Own chromaticLayout"
  by (simp add: getLayout_def get_property_def LAYOUTS_def)

section \<open>Properties of the audio engine\<close>

lemma inv_new: "engine_inv new_AudioEngine"
  by (simp add: engine_inv_def new_AudioEngine_def sounding_def registered_def)

lemma sounding_fields [simp]:
  "sounding (e\<lparr>console := c\<rparr>) = sounding e"
  "sounding (e\<lparr>audioContext := a\<rparr>) = sounding e"
  "sounding (e\<lparr>masterGain := g\<rparr>) = sounding e"
  "sounding (e\<lparr>initialized := i\<rparr>) = sounding e"
  "sounding (e\<lparr>volume := v\<rparr>) = sounding e"
  "sounding (e\<lparr>waveform := w\<rparr>) = sounding e"
  "sounding (e\<lparr>activeOscillators := A\<rparr>) = sounding e"
  by (simp_all add: sounding_def)

lemma registered_fields [simp]:
  "registered (e\<lparr>console := c\<rparr>) = registered e"
  "registered (e\<lparr>audioContext := a\<rparr>) = registered e"
  "registered (e\<lparr>masterGain := g\<rparr>) = registered e"
  "registered (e\<lparr>initialized := i\<rparr>) = registered e"
  "registered (e\<lparr>volume := v\<rparr>) = registered e"
  "registered (e\<lparr>waveform := w\<rparr>) = registered e"
  "registered (e\<lparr>oscillators := os\<rparr>) = registered e"
  by (simp_all add: registered_def)

lemma inv_initialize: "engine_inv e \<Longrightarrow> engine_inv (initialize b e)"
  by (cases "init_result b") (auto simp: engine_inv_def initialize_def)

lemma inv_setVolume: "engine_inv e \<Longrightarrow> engine_inv (setVolume e v)"
  by (auto simp: engine_inv_def setVolume_def Let_def split: option.splits)

lemma set_sounding:
  "set (sounding e) = {h. h < length (oscillators e) \<and> \<not> stop_scheduled (oscillators e ! h)}"
  by (auto simp: sounding_def)

lemma sounding_cong:
  assumes "map stop_scheduled (oscillators e') = map stop_scheduled (oscillators e)"
  shows "sounding e' = sounding e"
proof -
  have len: "length (oscillators e') = length (oscillators e)"
    using assms by (metis length_map)
  have "stop_scheduled (oscillators e' ! h) = stop_scheduled (oscillators e ! h)"
    if "h < length (oscillators e)" for h
    using that assms len by (metis nth_map)
  then show ?thesis
    unfolding sounding_def len by (intro filter_cong) auto
qed

lemma set_osc_type_flags:
  "map stop_scheduled (set_osc_type w os h) = map stop_scheduled os"
proof (cases "h < length os")
  case True
  then show ?thesis
    by (simp add: set_osc_type_def map_update list_update_same_conv)
next
  case False
  then have "length os \<le> h" by simp
  then have "set_osc_type w os h = os"
    by (simp add: set_osc_type_def list_update_beyond)
  then show ?thesis by simp
qed

lemma retype_flags:
  "map stop_scheduled (foldl (\<lambda>os (noteId, data). set_osc_type w os (oscillator data)) os entries)
     = map stop_scheduled os"
  by (induction entries arbitrary: os) (auto simp: set_osc_type_flags)

lemma inv_setWaveform: "engine_inv e \<Longrightarrow> engine_inv (setWaveform e w)"
proof -
  assume inv: "engine_inv e"
  have "sounding (setWaveform e w) = sounding e"
    by (rule sounding_cong) (simp add: setWaveform_def Let_def retype_flags)
  then show ?thesis
    using inv by (simp add: engine_inv_def) (simp add: setWaveform_def Let_def)
qed

lemma delete_present:
  assumes "distinct (map fst al)" and "map_of al k = Some v"
  shows "set (AList.delete k al) = set al - {(k, v)}"
proof -
  have "(k', v') \<in> set al \<Longrightarrow> k' = k \<Longrightarrow> v' = v" for k' v'
    using assms by (metis map_of_is_SomeI option.inject)
  then show ?thesis
    using assms(2) by (auto simp: AList.delete_eq dest: map_of_SomeD)
qed

lemma registered_delete:
  assumes keys: "distinct (map fst (activeOscillators e))"
    and handles: "distinct (registered e)"
    and present: "map_of (activeOscillators e) k = Some v"
  shows "set (registered (e\<lparr>activeOscillators := AList.delete k (activeOscillators e)\<rparr>))
           = set (registered e) - {oscillator v}"
    and "distinct (registered (e\<lparr>activeOscillators := AList.delete k (activeOscillators e)\<rparr>))"
proof -
  let ?f = "\<lambda>entry. oscillator (snd entry)"
  have inj: "inj_on ?f (set (activeOscillators e))"
    using handles by (simp add: registered_def distinct_map)
  have mem: "(k, v) \<in> set (activeOscillators e)"
    using present by (rule map_of_SomeD)
  have "?f ` (set (activeOscillators e) - {(k, v)}) = ?f ` set (activeOscillators e) - ?f ` {(k, v)}"
    using inj mem by (intro inj_on_image_set_diff [where C = "set (activeOscillators e)"]) auto
  then show "set (registered (e\<lparr>activeOscillators := AList.delete k (activeOscillators e)\<rparr>))
           = set (registered e) - {oscillator v}"
    by (simp add: registered_def delete_present [OF keys present])
  show "distinct (registered (e\<lparr>activeOscillators := AList.delete k (activeOscillators e)\<rparr>))"
    using handles by (simp add: registered_def AList.delete_eq distinct_map_filter)
qed

lemma sounding_schedule_stop:
  "set (sounding (e\<lparr>oscillators := schedule_stop (oscillators e) h\<rparr>)) = set (sounding e) - {h}"
proof (cases "h < length (oscillators e)")
  case True
  then show ?thesis
    by (auto simp: set_sounding schedule_stop_def nth_list_update)
next
  case False
  then have "length (oscillators e) \<le> h" by simp
  then show ?thesis
    by (auto simp: set_sounding schedule_stop_def list_update_beyond)
qed

text \<open>The state after a successful release of the voice \<open>v\<close> of \<open>k\<close>.\<close>

lemma inv_release:
  assumes inv: "engine_inv e" and present: "map_of (activeOscillators e) k = Some v"
  shows "engine_inv (e\<lparr>oscillators := schedule_stop (oscillators e) (oscillator v),
                        activeOscillators := AList.delete k (activeOscillators e)\<rparr>)"
proof -
  let ?e1 = "e\<lparr>oscillators := schedule_stop (oscillators e) (oscillator v)\<rparr>"
  have keys: "distinct (map fst (activeOscillators ?e1))"
    and handles: "distinct (registered ?e1)"
    and present1: "map_of (activeOscillators ?e1) k = Some v"
    using inv present by (simp_all add: engine_inv_def)
  have a: "set (registered (?e1\<lparr>activeOscillators := AList.delete k (activeOscillators ?e1)\<rparr>))
      = set (registered ?e1) - {oscillator v}"
    and b: "distinct (registered (?e1\<lparr>activeOscillators := AList.delete k (activeOscillators ?e1)\<rparr>))"
    using registered_delete [OF keys handles present1] by blast+
  have c: "set (sounding ?e1) = set (sounding e) - {oscillator v}"
    by (rule sounding_schedule_stop)
  have d: "AList.delete k (activeOscillators e) \<noteq> [] \<Longrightarrow> activeOscillators e \<noteq> []"
    by auto
  show ?thesis
    using inv a b c d by (simp add: engine_inv_def distinct_delete)
qed

lemma stopNote_no_throw:
  assumes inv: "engine_inv e"
  shows "\<exists>e'. stopNote e noteId = Inr e' \<and> engine_inv e'
     \<and> map_of (activeOscillators e') noteId = None
     \<and> activeOscillators e' = AList.delete noteId (activeOscillators e)
     \<and> (\<forall>v. map_of (activeOscillators e) noteId = Some v \<longrightarrow>
           stop_scheduled (oscillators e' ! oscillator v))
     \<and> length (oscillators e') = length (oscillators e)
     \<and> (\<forall>h. stop_scheduled (oscillators e ! h) \<longrightarrow> stop_scheduled (oscillators e' ! h))
     \<and> audioContext e' = audioContext e \<and> masterGain e' = masterGain e
     \<and> initialized e' = initialized e \<and> waveform e' = waveform e
     \<and> console e' = console e"
proof (cases "map_of (activeOscillators e) noteId")
  case None
  then have "noteId \<notin> fst ` set (activeOscillators e)"
    by (simp add: map_of_eq_None_iff)
  then show ?thesis using inv None by (simp add: stopNote_def)
next
  case (Some v)
  then have ne: "activeOscillators e \<noteq> []" by auto
  then obtain ctx where ctx: "audioContext e = Some ctx"
    using inv by (auto simp: engine_inv_def)
  have "oscillator v \<in> set (registered e)"
    using map_of_SomeD [OF Some] by (force simp: registered_def)
  then have "oscillator v \<in> set (sounding e)"
    using inv by (simp add: engine_inv_def)
  then have valid: "oscillator v < length (oscillators e)"
    by (simp add: set_sounding)
  have flags: "stop_scheduled (schedule_stop (oscillators e) (oscillator v) ! h)"
    if "stop_scheduled (oscillators e ! h)" for h
    using that valid by (cases "h = oscillator v") (simp_all add: schedule_stop_def)
  have "stop_scheduled (schedule_stop (oscillators e) (oscillator v) ! oscillator v)"
    using valid by (simp add: schedule_stop_def)
  then show ?thesis
    using Some ctx inv_release [OF inv Some] flags
    by (simp add: stopNote_def delete_conv' schedule_stop_def)
qed

lemma inv_stopNote: "engine_inv e \<Longrightarrow> engine_inv (state_after (stopNote e noteId))"
  using stopNote_no_throw [of e noteId] by (auto simp: state_after_def)

lemma update_absent: "map_of al k = None \<Longrightarrow> AList.update k v al = al @ [(k, v)]"
  by (induction al) (auto split: if_splits)

text \<open>The state after a successful start of a voice for \<open>k\<close>, which has none.\<close>

lemma inv_start:
  assumes inv: "engine_inv e" and absent: "map_of (activeOscillators e) k = None"
    and ctx: "audioContext e \<noteq> None"
  shows "engine_inv (e\<lparr>oscillators := oscillators e @ [\<lparr>osc_type = w, osc_frequency = f,
                                                         stop_scheduled = False\<rparr>],
                        activeOscillators :=
                          AList.update k \<lparr>oscillator = length (oscillators e), voice_frequency = f\<rparr>
                            (activeOscillators e)\<rparr>)"
proof -
  let ?n = "length (oscillators e)"
  have bound: "h \<in> set (registered e) \<Longrightarrow> h < ?n" for h
    using inv by (auto simp: engine_inv_def set_sounding)
  then have fresh: "?n \<notin> set (registered e)" by blast
  have snd: "set (sounding (e\<lparr>oscillators := oscillators e @ [\<lparr>osc_type = w, osc_frequency = f,
                                                         stop_scheduled = False\<rparr>]\<rparr>))
      = insert ?n (set (sounding e))"
    by (auto simp: set_sounding nth_append less_Suc_eq)
  have keys: "k \<notin> fst ` set (activeOscillators e)"
    using absent by (simp add: map_of_eq_None_iff)
  show ?thesis
    using inv fresh snd keys ctx
    by (simp add: engine_inv_def update_absent [OF absent] registered_def sounding_def [symmetric])
qed

lemma registered_bound:
  "engine_inv e \<Longrightarrow> map_of (activeOscillators e) k = Some v \<Longrightarrow>
   oscillator v < length (oscillators e) \<and> \<not> stop_scheduled (oscillators e ! oscillator v)"
proof -
  assume inv: "engine_inv e" and present: "map_of (activeOscillators e) k = Some v"
  have "oscillator v \<in> set (registered e)"
    using map_of_SomeD [OF present] by (force simp: registered_def)
  then have "oscillator v \<in> set (sounding e)"
    using inv by (simp add: engine_inv_def)
  then show ?thesis by (simp add: set_sounding)
qed

text \<open>A call of \<open>playNote\<close> on a state with an initialised sink.\<close>

lemma playNote_initialized:
  assumes inv: "engine_inv e" and init: "initialized e"
  shows "\<exists>e2. stopNote e noteId = Inr e2 \<and> engine_inv e2 \<and> initialized e2 \<and>
     audioContext e2 \<noteq> None \<and>
     map_of (activeOscillators e2) noteId = None \<and>
     length (oscillators e2) = length (oscillators e) \<and>
     (\<forall>v. map_of (activeOscillators e) noteId = Some v \<longrightarrow>
        stop_scheduled (oscillators e2 ! oscillator v)) \<and>
     playNote b e noteId f =
       (if synthesis_succeeds b then
          Inr (e2\<lparr>oscillators :=
                    oscillators e2 @
                    [\<lparr>osc_type = waveform e, osc_frequency = f, stop_scheduled = False\<rparr>],
                  activeOscillators :=
                    AList.update noteId
                      \<lparr>oscillator = length (oscillators e2), voice_frequency = f\<rparr>
                      (activeOscillators e2)\<rparr>)
        else Inr (e2\<lparr>console := console e @ [''Failed to play note:'']\<rparr>))"
proof -
  obtain e2 where e2: "stopNote e noteId = Inr e2" "engine_inv e2"
      "map_of (activeOscillators e2) noteId = None"
      "\<forall>v. map_of (activeOscillators e) noteId = Some v \<longrightarrow>
           stop_scheduled (oscillators e2 ! oscillator v)"
      "length (oscillators e2) = length (oscillators e)"
      "audioContext e2 = audioContext e" "masterGain e2 = masterGain e"
      "initialized e2 = initialized e" "waveform e2 = waveform e" "console e2 = console e"
    using stopNote_no_throw [OF inv, of noteId] by blast
  obtain ctx g where "audioContext e = Some ctx" "masterGain e = Some g"
    using inv init by (auto simp: engine_inv_def)
  then show ?thesis
    using e2 init by (simp add: playNote_def)
qed

lemma inv_playNote: "engine_inv e \<Longrightarrow> engine_inv (state_after (playNote b e noteId f))"
proof -
  assume inv: "engine_inv e"
  define e1 where "e1 = (if \<not> initialized e then initialize b e else e)"
  have inv1: "engine_inv e1"
    using inv by (simp add: e1_def inv_initialize)
  show ?thesis
  proof (cases "audioContext e1")
    case None
    then show ?thesis
      using inv1 by (simp add: playNote_def e1_def [symmetric] state_after_def)
  next
    case (Some ctx)
    obtain e2 where e2: "stopNote e1 noteId = Inr e2" "engine_inv e2"
      "map_of (activeOscillators e2) noteId = None" "audioContext e2 = audioContext e1"
      using stopNote_no_throw [OF inv1, of noteId] by blast
    have ctx2: "audioContext e2 \<noteq> None" using e2 Some by simp
    have "engine_inv (e2\<lparr>oscillators := oscillators e2 @ [\<lparr>osc_type = w, osc_frequency = f,
                                                         stop_scheduled = False\<rparr>],
                        activeOscillators :=
                          AList.update noteId
                            \<lparr>oscillator = length (oscillators e2), voice_frequency = f\<rparr>
                            (activeOscillators e2)\<rparr>)" for w
      by (rule inv_start [OF e2(2) e2(3) ctx2])
    moreover have "engine_inv (e2\<lparr>console := console e2 @ [l]\<rparr>)" for l
      using e2 by (simp add: engine_inv_def)
    ultimately show ?thesis
      using Some e2 by (simp add: playNote_def e1_def [symmetric] state_after_def)
  qed
qed

lemma inv_stopNotes: "engine_inv e \<Longrightarrow> engine_inv (state_after (stopNotes e ids))"
proof (induction ids arbitrary: e)
  case Nil
  then show ?case by (simp add: state_after_def)
next
  case (Cons noteId rest)
  obtain e1 where "stopNote e noteId = Inr e1" "engine_inv e1"
    using stopNote_no_throw [OF Cons.prems, of noteId] by blast
  then show ?case using Cons.IH by simp
qed

lemma inv_perform: "engine_inv e \<Longrightarrow> engine_inv (state_after (perform b e c))"
proof (cases c)
  case Initialize
  assume "engine_inv e"
  then show ?thesis using Initialize by (simp add: state_after_def inv_initialize)
next
  case (PlayNote noteId f)
  assume "engine_inv e"
  then show ?thesis using PlayNote by (simp add: inv_playNote)
next
  case (StopNote noteId)
  assume "engine_inv e"
  then show ?thesis using StopNote by (simp add: inv_stopNote)
next
  case StopAllNotes
  assume "engine_inv e"
  then show ?thesis using StopAllNotes by (simp add: stopAllNotes_def inv_stopNotes)
next
  case (SetWaveform w)
  assume "engine_inv e"
  then show ?thesis using SetWaveform by (simp add: state_after_def inv_setWaveform)
next
  case (SetVolume v)
  assume "engine_inv e"
  then show ?thesis using SetVolume by (simp add: state_after_def inv_setVolume)
qed

lemma inv_run: "engine_inv e \<Longrightarrow> engine_inv (run e calls)"
proof (induction calls arbitrary: e)
  case Nil
  then show ?case by simp
next
  case (Cons bc rest)
  obtain b c where "bc = (b, c)" by (cases bc)
  then show ?case using Cons by (simp add: inv_perform)
qed

lemma run_append: "run e (xs @ ys) = run (run e xs) ys"
  by (induction xs arbitrary: e) auto

lemma distinct_keys_count:
  "distinct (map fst xs) \<Longrightarrow> length (filter (\<lambda>entry. fst entry = k) xs) \<le> 1"
proof (induction xs)
  case Nil
  then show ?case by simp
next
  case (Cons x xs)
  show ?case
  proof (cases "fst x = k")
    case True
    then have "k \<notin> fst ` set xs" using Cons.prems by auto
    then have "filter (\<lambda>entry. fst entry = k) xs = []"
      by (auto simp: filter_empty_conv)
    then show ?thesis using True by simp
  next
    case False
    then show ?thesis using Cons by simp
  qed
qed

lemma distinct_keys_count_present:
  "distinct (map fst xs) \<Longrightarrow> map_of xs k = Some v \<Longrightarrow>
   length (filter (\<lambda>entry. fst entry = k) xs) = 1"
proof -
  assume d: "distinct (map fst xs)" and m: "map_of xs k = Some v"
  from m have "(k, v) \<in> set xs" by (rule map_of_SomeD)
  then have "filter (\<lambda>entry. fst entry = k) xs \<noteq> []"
    by (force simp: filter_empty_conv)
  then have "0 < length (filter (\<lambda>entry. fst entry = k) xs)" by simp
  with distinct_keys_count [OF d, of k] show ?thesis by linarith
qed

lemma sounding_count:
  assumes "engine_inv e"
  shows "length (sounding e) = length (activeOscillators e)"
proof -
  have "distinct (sounding e)" by (simp add: sounding_def)
  moreover have "distinct (registered e)" "set (sounding e) = set (registered e)"
    using assms by (simp_all add: engine_inv_def)
  ultimately have "length (sounding e) = length (registered e)"
    by (metis distinct_card)
  then show ?thesis by (simp add: registered_def)
qed

text \<open>
  C4.  After every sequence of calls on a new engine, whatever the browser does at each
  of them, the map holds at most one voice for every note identifier, no two voices
  share an oscillator, and the oscillators that go on sounding are exactly those of the
  voices in the map, as many as the map has entries: no oscillator sounds beside the one
  voice of its note identifier.  At any point, \<open>playNote('a', 440)\<close> followed by
  \<open>playNote('a', 466)\<close>, with a sink that can be initialised and a synthesis that
  succeeds for the second call, leaves exactly one voice for \<open>a\<close>, with frequency
  466; its oscillator sounds at 466, and \<open>stop\<close> has been called on the oscillator of
  the voice that \<open>a\<close> had after the first call.
\<close>

theorem one_voice_per_note:
  "voices_for (run new_AudioEngine calls) noteId \<le> 1 \<and>
   distinct (registered (run new_AudioEngine calls)) \<and>
   set (sounding (run new_AudioEngine calls)) = set (registered (run new_AudioEngine calls)) \<and>
   length (sounding (run new_AudioEngine calls))
     = length (activeOscillators (run new_AudioEngine calls)) \<and>
   (init_result b1 = InitSucceeds \<and> synthesis_succeeds b2 \<longrightarrow>
      voices_for
        (run new_AudioEngine (calls @ [(b1, PlayNote ''a'' 440), (b2, PlayNote ''a'' 466)])) ''a''
        = 1 \<and>
      map_option voice_frequency
        (map_of (activeOscillators
           (run new_AudioEngine (calls @ [(b1, PlayNote ''a'' 440), (b2, PlayNote ''a'' 466)])))
           ''a'')
        = Some 466 \<and>
      (\<exists>v. map_of (activeOscillators
                (run new_AudioEngine
                   (calls @ [(b1, PlayNote ''a'' 440), (b2, PlayNote ''a'' 466)]))) ''a''
              = Some v \<and>
            oscillator v \<in> set (sounding
                (run new_AudioEngine
                   (calls @ [(b1, PlayNote ''a'' 440), (b2, PlayNote ''a'' 466)]))) \<and>
            osc_frequency
              (oscillators
                 (run new_AudioEngine
                    (calls @ [(b1, PlayNote ''a'' 440), (b2, PlayNote ''a'' 466)]))
               ! oscillator v) = 466) \<and>
      (\<forall>v1. map_of (activeOscillators
                 (run new_AudioEngine (calls @ [(b1, PlayNote ''a'' 440)]))) ''a'' = Some v1 \<longrightarrow>
             stop_scheduled
               (oscillators
                  (run new_AudioEngine
                     (calls @ [(b1, PlayNote ''a'' 440), (b2, PlayNote ''a'' 466)]))
                ! oscillator v1)))"
proof -
  define e where "e = run new_AudioEngine calls"
  define e1 where "e1 = state_after (playNote b1 e ''a'' 440)"
  define e2 where "e2 = state_after (playNote b2 e1 ''a'' 466)"
  have mid: "run new_AudioEngine (calls @ [(b1, PlayNote ''a'' 440)]) = e1"
    by (simp add: run_append e_def e1_def)
  have fin: "run new_AudioEngine (calls @ [(b1, PlayNote ''a'' 440), (b2, PlayNote ''a'' 466)]) = e2"
    by (simp add: run_append e_def e1_def e2_def)
  have inv: "engine_inv e" by (simp add: e_def inv_run inv_new)
  have general: "voices_for e noteId \<le> 1 \<and> distinct (registered e) \<and>
      set (sounding e) = set (registered e) \<and> length (sounding e) = length (activeOscillators e)"
  proof -
    have keys: "distinct (map fst (activeOscillators e))"
      using inv by (simp add: engine_inv_def)
    have "voices_for e noteId \<le> 1"
      unfolding voices_for_def using keys by (rule distinct_keys_count)
    then show ?thesis
      using inv sounding_count [OF inv] by (simp add: engine_inv_def)
  qed
  have particular: "voices_for e2 ''a'' = 1 \<and>
      map_option voice_frequency (map_of (activeOscillators e2) ''a'') = Some 466 \<and>
      (\<exists>v. map_of (activeOscillators e2) ''a'' = Some v \<and>
            oscillator v \<in> set (sounding e2) \<and>
            osc_frequency (oscillators e2 ! oscillator v) = 466) \<and>
      (\<forall>v1. map_of (activeOscillators e1) ''a'' = Some v1 \<longrightarrow>
             stop_scheduled (oscillators e2 ! oscillator v1))"
    if ok: "init_result b1 = InitSucceeds \<and> synthesis_succeeds b2"
  proof -
    define e0 where "e0 = (if \<not> initialized e then initialize b1 e else e)"
    have inv0: "engine_inv e0"
      using inv by (simp add: e0_def inv_initialize)
    have init0: "initialized e0"
      using ok by (simp add: e0_def initialize_def)
    have p0: "playNote b1 e ''a'' 440 = playNote b1 e0 ''a'' 440"
      using init0 by (simp add: playNote_def e0_def [symmetric])
    obtain s1 where s1: "initialized s1"
      "playNote b1 e0 ''a'' 440 =
         (if synthesis_succeeds b1 then
            Inr (s1\<lparr>oscillators :=
                      oscillators s1 @
                      [\<lparr>osc_type = waveform e0, osc_frequency = 440, stop_scheduled = False\<rparr>],
                    activeOscillators :=
                      AList.update ''a''
                        \<lparr>oscillator = length (oscillators s1), voice_frequency = 440\<rparr>
                        (activeOscillators s1)\<rparr>)
          else Inr (s1\<lparr>console := console e0 @ [''Failed to play note:'']\<rparr>))"
      using playNote_initialized [OF inv0 init0, of "''a''" b1 440] by blast
    have inv1: "engine_inv e1"
      unfolding e1_def by (rule inv_playNote [OF inv])
    have init1: "initialized e1"
      using s1 by (simp add: e1_def p0 state_after_def)
    obtain s2 where s2: "engine_inv s2" "map_of (activeOscillators s2) ''a'' = None"
      "length (oscillators s2) = length (oscillators e1)"
      "\<forall>v. map_of (activeOscillators e1) ''a'' = Some v \<longrightarrow>
         stop_scheduled (oscillators s2 ! oscillator v)"
      "playNote b2 e1 ''a'' 466 =
         (if synthesis_succeeds b2 then
            Inr (s2\<lparr>oscillators :=
                      oscillators s2 @
                      [\<lparr>osc_type = waveform e1, osc_frequency = 466, stop_scheduled = False\<rparr>],
                    activeOscillators :=
                      AList.update ''a''
                        \<lparr>oscillator = length (oscillators s2), voice_frequency = 466\<rparr>
                        (activeOscillators s2)\<rparr>)
          else Inr (s2\<lparr>console := console e1 @ [''Failed to play note:'']\<rparr>))"
      using playNote_initialized [OF inv1 init1, of "''a''" b2 466] by blast
    have act: "activeOscillators e2 =
        AList.update ''a'' \<lparr>oscillator = length (oscillators s2), voice_frequency = 466\<rparr>
          (activeOscillators s2)"
      and osc: "oscillators e2 = oscillators s2 @
          [\<lparr>osc_type = waveform e1, osc_frequency = 466, stop_scheduled = False\<rparr>]"
      using s2 ok by (simp_all add: e2_def state_after_def)
    have look: "map_of (activeOscillators e2) ''a''
        = Some \<lparr>oscillator = length (oscillators s2), voice_frequency = 466\<rparr>"
      by (simp add: act update_conv')
    have inv2: "engine_inv e2"
      unfolding e2_def by (rule inv_playNote [OF inv1])
    then have "distinct (map fst (activeOscillators e2))"
      by (simp add: engine_inv_def)
    then have one: "voices_for e2 ''a'' = 1"
      unfolding voices_for_def using look by (rule distinct_keys_count_present)
    have new: "length (oscillators s2) \<in> set (sounding e2)"
      "osc_frequency (oscillators e2 ! length (oscillators s2)) = 466"
      by (simp_all add: set_sounding osc)
    have old: "stop_scheduled (oscillators e2 ! oscillator v1)"
      if "map_of (activeOscillators e1) ''a'' = Some v1" for v1
    proof -
      have "oscillator v1 < length (oscillators s2)"
        using registered_bound [OF inv1 that] s2(3) by simp
      then show ?thesis
        using s2(4) that by (simp add: osc nth_append)
    qed
    show ?thesis
      using one look new old by simp
  qed
  show ?thesis
    unfolding mid fin using general particular by (simp add: e_def)
qed

text \<open>The two calls of the instance, evaluated on a new engine.\<close>

lemma run_two_notes:
  "run new_AudioEngine
     [(\<lparr>init_result = InitSucceeds, synthesis_succeeds = True\<rparr>, PlayNote ''a'' 440)]
   = new_AudioEngine
      \<lparr>audioContext := Some AudioContext, masterGain := Some \<lparr>gain_value = 0.5\<rparr>,
        activeOscillators := [(''a'', \<lparr>oscillator = 0, voice_frequency = 440\<rparr>)],
        initialized := True, console := [''Audio engine initialized''],
        oscillators := [\<lparr>osc_type = ''sine'', osc_frequency = 440, stop_scheduled = False\<rparr>]\<rparr>"
  "run new_AudioEngine
     [(\<lparr>init_result = InitSucceeds, synthesis_succeeds = True\<rparr>, PlayNote ''a'' 440),
      (\<lparr>init_result = InitSucceeds, synthesis_succeeds = True\<rparr>, PlayNote ''a'' 466)]
   = new_AudioEngine
      \<lparr>audioContext := Some AudioContext, masterGain := Some \<lparr>gain_value = 0.5\<rparr>,
        activeOscillators := [(''a'', \<lparr>oscillator = 1, voice_frequency = 466\<rparr>)],
        initialized := True, console := [''Audio engine initialized''],
        oscillators := [\<lparr>osc_type = ''sine'', osc_frequency = 440, stop_scheduled = True\<rparr>,
                        \<lparr>osc_type = ''sine'', osc_frequency = 466, stop_scheduled = False\<rparr>]\<rparr>"
  by (simp_all add: playNote_def initialize_def stopNote_def new_AudioEngine_def state_after_def
      schedule_stop_def)

theorem one_voice_per_note_witness:
  "init_result \<lparr>init_result = InitSucceeds, synthesis_succeeds = True\<rparr> = InitSucceeds \<and>
   synthesis_succeeds \<lparr>init_result = InitSucceeds, synthesis_succeeds = True\<rparr> \<and>
   voices_for
     (run new_AudioEngine
        [(\<lparr>init_result = InitSucceeds, synthesis_succeeds = True\<rparr>, PlayNote ''a'' 440),
         (\<lparr>init_result = InitSucceeds, synthesis_succeeds = True\<rparr>, PlayNote ''a'' 466)]) ''a''
     = 1 \<and>
   map_option voice_frequency
     (map_of (activeOscillators
        (run new_AudioEngine
           [(\<lparr>init_result = InitSucceeds, synthesis_succeeds = True\<rparr>, PlayNote ''a'' 440),
            (\<lparr>init_result = InitSucceeds, synthesis_succeeds = True\<rparr>, PlayNote ''a'' 466)]))
        ''a'')
     = Some 466 \<and>
   map_of (activeOscillators
      (run new_AudioEngine
         [(\<lparr>init_result = InitSucceeds, synthesis_succeeds = True\<rparr>, PlayNote ''a'' 440)])) ''a''
     = Some \<lparr>oscillator = 0, voice_frequency = 440\<rparr> \<and>
   stop_scheduled
     (oscillators
        (run new_AudioEngine
           [(\<lparr>init_result = InitSucceeds, synthesis_succeeds = True\<rparr>, PlayNote ''a'' 440),
            (\<lparr>init_result = InitSucceeds, synthesis_succeeds = True\<rparr>, PlayNote ''a'' 466)])
      ! 0) \<and>
   sounding
     (run new_AudioEngine
        [(\<lparr>init_result = InitSucceeds, synthesis_succeeds = True\<rparr>, PlayNote ''a'' 440),
         (\<lparr>init_result = InitSucceeds, synthesis_succeeds = True\<rparr>, PlayNote ''a'' 466)])
     = [1]"
proof -
  let ?b = "\<lparr>init_result = InitSucceeds, synthesis_succeeds = True\<rparr>"
  let ?e1 = "run new_AudioEngine [(?b, PlayNote ''a'' 440)]"
  let ?e2 = "run new_AudioEngine [(?b, PlayNote ''a'' 440), (?b, PlayNote ''a'' 466)]"
  have old: "map_of (activeOscillators ?e1) ''a'' = Some \<lparr>oscillator = 0, voice_frequency = 440\<rparr>"
    by (simp only: run_two_notes) (simp add: new_AudioEngine_def)
  have live: "sounding ?e2 = [1]"
    by (simp only: run_two_notes) (simp add: new_AudioEngine_def sounding_def)
  have hyp: "init_result ?b = InitSucceeds \<and> synthesis_succeeds ?b" by simp
  from one_voice_per_note [of "[]" "''a''" ?b ?b] hyp
  have "voices_for ?e2 ''a'' = 1"
    and "map_option voice_frequency (map_of (activeOscillators ?e2) ''a'') = Some 466"
    and "\<forall>v1. map_of (activeOscillators ?e1) ''a'' = Some v1 \<longrightarrow>
           stop_scheduled (oscillators ?e2 ! oscillator v1)"
    by simp_all
  with old live hyp show ?thesis by simp
qed

text \<open>
  C5 does not hold of the code.  On a new engine whose context cannot be constructed,
  \<open>initialize\<close> catches and logs the failure and leaves \<open>audioContext\<close> \<open>null\<close>;
  \<open>playNote\<close> then reads \<open>this.audioContext.state\<close> outside any \<open>try\<close> block, and
  the call ends with a \<open>TypeError\<close>.  No voice is registered.
\<close>

theorem playNote_throws_without_context:
  "playNote \<lparr>init_result = ConstructorThrows, synthesis_succeeds = True\<rparr> new_AudioEngine ''a'' 440
     = Inl (TypeError, new_AudioEngine\<lparr>console := [''Failed to initialize audio:'']\<rparr>)"
  by (simp add: playNote_def initialize_def new_AudioEngine_def)

text \<open>
  C10.  In every state the engine can reach, if a note identifier has a voice and the
  creation of the new voice throws, \<open>playNote\<close> returns normally and the engine holds no
  voice for that identifier: the old entry has been deleted and nothing is stored, and
  \<open>stop\<close> has been called on the oscillator of the old voice, which no longer counts
  among the sounding ones.
\<close>

theorem playNote_failure_drops_voice:
  assumes "map_of (activeOscillators (run new_AudioEngine calls)) noteId = Some v"
    and "\<not> synthesis_succeeds b"
  shows "\<exists>e'. playNote b (run new_AudioEngine calls) noteId f = Inr e' \<and>
      map_of (activeOscillators e') noteId = None \<and>
      activeOscillators e' = AList.delete noteId (activeOscillators (run new_AudioEngine calls)) \<and>
      stop_scheduled (oscillators e' ! oscillator v) \<and>
      oscillator v \<notin> set (sounding e')"
proof -
  define e where "e = run new_AudioEngine calls"
  have inv: "engine_inv e" by (simp add: e_def inv_run inv_new)
  have present: "map_of (activeOscillators e) noteId = Some v"
    using assms(1) by (simp add: e_def)
  define e1 where "e1 = (if \<not> initialized e then initialize b e else e)"
  have inv1: "engine_inv e1"
    using inv by (simp add: e1_def inv_initialize)
  have act1: "activeOscillators e1 = activeOscillators e"
    by (cases "init_result b") (simp_all add: e1_def initialize_def)
  have present1: "map_of (activeOscillators e1) noteId = Some v"
    using present by (simp add: act1)
  then have "activeOscillators e1 \<noteq> []" by auto
  then obtain ctx where ctx1: "audioContext e1 = Some ctx"
    using inv1 by (auto simp: engine_inv_def)
  obtain e2 where e2: "stopNote e1 noteId = Inr e2"
      "map_of (activeOscillators e2) noteId = None"
      "activeOscillators e2 = AList.delete noteId (activeOscillators e1)"
      "\<forall>v. map_of (activeOscillators e1) noteId = Some v \<longrightarrow>
           stop_scheduled (oscillators e2 ! oscillator v)"
    using stopNote_no_throw [OF inv1, of noteId] by blast
  have "playNote b e noteId f = Inr (e2\<lparr>console := console e2 @ [''Failed to play note:'']\<rparr>)"
    using assms(2) by (simp add: playNote_def e1_def [symmetric] ctx1 e2)
  moreover have "stop_scheduled (oscillators e2 ! oscillator v)"
    using e2(4) present1 by simp
  ultimately show ?thesis
    unfolding e_def [symmetric] using e2 by (simp add: act1 set_sounding)
qed

theorem playNote_failure_drops_voice_witness:
  "map_of (activeOscillators
      (run new_AudioEngine
         [(\<lparr>init_result = InitSucceeds, synthesis_succeeds = True\<rparr>, PlayNote ''a'' 440)])) ''a''
     = Some \<lparr>oscillator = 0, voice_frequency = 440\<rparr> \<and>
   \<not> synthesis_succeeds \<lparr>init_result = InitSucceeds, synthesis_succeeds = False\<rparr> \<and>
   map_of (activeOscillators (state_after
      (playNote \<lparr>init_result = InitSucceeds, synthesis_succeeds = False\<rparr>
         (run new_AudioEngine
            [(\<lparr>init_result = InitSucceeds, synthesis_succeeds = True\<rparr>, PlayNote ''a'' 440)])
         ''a'' 466))) ''a''
     = None \<and>
   stop_scheduled (oscillators (state_after
      (playNote \<lparr>init_result = InitSucceeds, synthesis_succeeds = False\<rparr>
         (run new_AudioEngine
            [(\<lparr>init_result = InitSucceeds, synthesis_succeeds = True\<rparr>, PlayNote ''a'' 440)])
         ''a'' 466)) ! 0)"
proof -
  let ?e = "run new_AudioEngine
      [(\<lparr>init_result = InitSucceeds, synthesis_succeeds = True\<rparr>, PlayNote ''a'' 440)]"
  let ?b = "\<lparr>init_result = InitSucceeds, synthesis_succeeds = False\<rparr>"
  have present: "map_of (activeOscillators ?e) ''a'' = Some \<lparr>oscillator = 0, voice_frequency = 440\<rparr>"
    by (simp only: run_two_notes) (simp add: new_AudioEngine_def)
  have fails: "\<not> synthesis_succeeds ?b" by simp
  obtain e' where "playNote ?b ?e ''a'' 466 = Inr e'" "map_of (activeOscillators e') ''a'' = None"
    "stop_scheduled (oscillators e' ! oscillator \<lparr>oscillator = 0, voice_frequency = 440\<rparr>)"
    using playNote_failure_drops_voice [OF present fails, of 466] by blast
  then have "map_of (activeOscillators (state_after (playNote ?b ?e ''a'' 466))) ''a'' = None"
    "stop_scheduled (oscillators (state_after (playNote ?b ?e ''a'' 466)) ! 0)"
    by (simp_all add: state_after_def)
  with present fails show ?thesis by blast
qed

section \<open>Properties of the double-precision evaluation\<close>

text \<open>
  The powers of two below have exponents up to 1024; they are kept as powers and compared
  through the monotonicity of the exponential.
\<close>

declare powr_numeral [simp del] numeral_powr_numeral_real [simp del]

lemma round_half_even_int [simp]: "round_half_even (real_of_int n) = n"
  by (simp add: round_half_even_def)

lemma round_half_even_err: "\<bar>real_of_int (round_half_even y) - y\<bar> \<le> 1 / 2"
proof -
  have "real_of_int \<lfloor>y\<rfloor> \<le> y" "y < real_of_int \<lfloor>y\<rfloor> + 1" by simp_all
  then show ?thesis
    by (auto simp: round_half_even_def Let_def)
qed

lemma round_half_even_ge: "real_of_int m \<le> y \<Longrightarrow> m \<le> round_half_even y"
proof -
  assume "real_of_int m \<le> y"
  then have "m \<le> \<lfloor>y\<rfloor>" by (simp add: le_floor_iff)
  then show ?thesis by (auto simp: round_half_even_def Let_def)
qed

lemma binade_normal:
  assumes "2 powr (- 1022) \<le> \<bar>x\<bar>"
  shows "2 powr real_of_int (binade x) \<le> \<bar>x\<bar>"
    and "\<bar>x\<bar> < 2 powr real_of_int (binade x + 1)"
    and "- 1022 \<le> binade x"
proof -
  have "(0::real) < 2 powr (- 1022)" by simp
  then have pos: "0 < \<bar>x\<bar>"
    using assms by linarith
  have "log 2 (2 powr (- 1022)) \<le> log 2 \<bar>x\<bar>"
    using assms pos by (subst log_le_cancel_iff) simp_all
  then have "- 1022 \<le> log 2 \<bar>x\<bar>" by simp
  then have "(- 1022 :: int) \<le> \<lfloor>log 2 \<bar>x\<bar>\<rfloor>" by (simp add: le_floor_iff)
  then have b: "binade x = \<lfloor>log 2 \<bar>x\<bar>\<rfloor>" by (simp add: binade_def)
  have "2 powr real_of_int \<lfloor>log 2 \<bar>x\<bar>\<rfloor> \<le> \<bar>x\<bar> \<and> \<bar>x\<bar> < 2 powr real_of_int (\<lfloor>log 2 \<bar>x\<bar>\<rfloor> + 1)"
    using floor_log_eq_powr_iff [of "\<bar>x\<bar>" 2 "\<lfloor>log 2 \<bar>x\<bar>\<rfloor>"] pos by simp
  then show "2 powr real_of_int (binade x) \<le> \<bar>x\<bar>"
    and "\<bar>x\<bar> < 2 powr real_of_int (binade x + 1)"
    by (simp_all add: b)
  show "- 1022 \<le> binade x" by (simp add: binade_def)
qed

text \<open>
  In the normal range rounding to the nearest double has a relative error of at most
  \<open>2 powr (- 53)\<close>, and a result is a finite double.
\<close>

lemma to_double_rel:
  assumes lo: "2 powr (- 1022) \<le> \<bar>x\<bar>" and hi: "\<bar>x\<bar> \<le> 2 powr 1023"
  shows "\<exists>r. to_double x = Num r \<and> \<bar>r - x\<bar> \<le> 2 powr (- 53) * \<bar>x\<bar>"
proof -
  define e where "e = binade x"
  define q where "q = 2 powr real_of_int (e - 52)"
  define r where "r = real_of_int (round_half_even (x / q)) * q"
  have qpos: "0 < q" by (simp add: q_def)
  have e_lo: "2 powr real_of_int e \<le> \<bar>x\<bar>"
    using binade_normal(1) [OF lo] by (simp add: e_def)
  have "(0::real) < 2 powr (- 1022)" by simp
  then have nz: "x \<noteq> 0" using lo by auto
  have "(2::real) powr (- 1) = 1 / 2 powr 1"
    by (rule powr_minus_divide)
  then have "q / 2 = 2 powr real_of_int (e - 52) * 2 powr (- 1)"
    by (simp add: q_def)
  also have "\<dots> = 2 powr (real_of_int (e - 52) + (- 1))"
    by (rule powr_add [symmetric])
  also have "real_of_int (e - 52) + (- 1) = - 53 + real_of_int e"
    by simp
  also have "2 powr (- 53 + real_of_int e) = 2 powr (- 53) * 2 powr real_of_int e"
    by (rule powr_add)
  finally have q_half: "q / 2 = 2 powr (- 53) * 2 powr real_of_int e" .
  have "r - x = (real_of_int (round_half_even (x / q)) - x / q) * q"
    using qpos by (simp add: r_def field_simps)
  then have "\<bar>r - x\<bar> = \<bar>real_of_int (round_half_even (x / q)) - x / q\<bar> * q"
    using qpos by (simp add: abs_mult)
  also have "\<dots> \<le> (1 / 2) * q"
    using qpos round_half_even_err [of "x / q"] by (intro mult_right_mono) simp_all
  also have "\<dots> = 2 powr (- 53) * 2 powr real_of_int e"
    using q_half by simp
  finally have err: "\<bar>r - x\<bar> \<le> 2 powr (- 53) * 2 powr real_of_int e" .
  also have "\<dots> \<le> 2 powr (- 53) * \<bar>x\<bar>"
    using e_lo by (intro mult_left_mono) simp_all
  finally have rel: "\<bar>r - x\<bar> \<le> 2 powr (- 53) * \<bar>x\<bar>" .
  have "(2::real) powr (- 53) \<le> 2 powr (- 1)"
    by (intro powr_mono) simp_all
  then have "(2::real) powr (- 53) \<le> 1 / 2" by (simp add: powr_minus)
  then have "2 powr (- 53) * \<bar>x\<bar> \<le> (1 / 2) * \<bar>x\<bar>"
    by (intro mult_right_mono) simp_all
  then have "\<bar>r\<bar> \<le> (3 / 2) * \<bar>x\<bar>"
    using rel by linarith
  also have "\<dots> \<le> (3 / 2) * 2 powr 1023"
    using hi by simp
  also have "\<dots> < 2 * 2 powr 1023" by simp
  also have "\<dots> = overflow_threshold"
  proof -
    have "(2::real) powr (1 + 1023) = 2 powr 1 * 2 powr 1023"
      by (rule powr_add)
    then show ?thesis
      by (simp add: overflow_threshold_def)
  qed
  finally have "\<not> overflow_threshold \<le> \<bar>r\<bar>" by simp
  then have "to_double x = Num r"
    using nz by (simp add: to_double_def Let_def r_def q_def e_def)
  then show ?thesis using rel by blast
qed

text \<open>From \<open>2 powr 1024\<close> on, rounding overflows.\<close>

lemma to_double_overflow:
  assumes "overflow_threshold \<le> x"
  shows "to_double x = PlusInfinity"
proof -
  have big: "2 powr 1024 \<le> x"
    using assms by (simp add: overflow_threshold_def)
  have "(0::real) < 2 powr 1024" by simp
  then have xpos: "0 < x" using big by linarith
  have "(2::real) powr (- 1022) \<le> 2 powr 1024"
    by (intro powr_mono) simp_all
  then have lo: "2 powr (- 1022) \<le> \<bar>x\<bar>" using big xpos by linarith
  define e where "e = binade x"
  define q where "q = 2 powr real_of_int (e - 52)"
  have qpos: "0 < q" by (simp add: q_def)
  have e_lo: "2 powr real_of_int e \<le> x" and e_hi: "x < 2 powr real_of_int (e + 1)"
    using binade_normal(1,2) [OF lo] xpos by (simp_all add: e_def)
  have one: "(1::real) < 2" by simp
  have "2 powr 1024 < 2 powr real_of_int (e + 1)"
    using big e_hi by linarith
  with powr_less_cancel_iff [OF one, of 1024 "real_of_int (e + 1)"]
  have "1024 < real_of_int (e + 1)" by blast
  then have e_big: "1024 \<le> e" by linarith
  define M :: int where "M = 2 ^ 52"
  have M: "real_of_int M = 2 powr 52"
    by (simp add: M_def powr_numeral)
  have Mq: "2 powr 52 * q = 2 powr real_of_int e"
    unfolding q_def by (simp add: powr_add [symmetric])
  have "2 powr 52 * q \<le> x"
    using e_lo by (simp only: Mq)
  then have "2 powr 52 \<le> x / q"
    using qpos by (simp add: pos_le_divide_eq)
  then have "real_of_int M \<le> x / q" by (simp only: M)
  then have "M \<le> round_half_even (x / q)"
    by (rule round_half_even_ge)
  then have "real_of_int M \<le> real_of_int (round_half_even (x / q))"
    by linarith
  then have "real_of_int M * q \<le> real_of_int (round_half_even (x / q)) * q"
    using qpos by (simp add: mult_right_mono)
  then have "2 powr real_of_int e \<le> real_of_int (round_half_even (x / q)) * q"
    by (simp only: M Mq)
  moreover have "2 powr 1024 \<le> 2 powr real_of_int e"
    using e_big by (intro powr_mono) simp_all
  ultimately have "overflow_threshold \<le> real_of_int (round_half_even (x / q)) * q"
    unfolding overflow_threshold_def by linarith
  then have "overflow_threshold \<le> \<bar>real_of_int (round_half_even (x / q)) * q\<bar>"
    by linarith
  then show ?thesis
    using xpos by (simp add: to_double_def Let_def q_def e_def)
qed

text \<open>Multiples of the spacing, powers of two and small integers are doubles.\<close>

lemma to_double_exact:
  assumes nz: "x \<noteq> 0"
    and rep: "x = real_of_int m * 2 powr real_of_int (binade x - 52)"
    and fin: "\<bar>x\<bar> < overflow_threshold"
  shows "to_double x = Num x"
proof -
  define q where "q = 2 powr real_of_int (binade x - 52)"
  have qpos: "0 < q" by (simp add: q_def)
  have xq: "x = real_of_int m * q"
    using rep by (simp only: q_def)
  have "real_of_int m * q / q = real_of_int m"
    using qpos by simp
  then have "x / q = real_of_int m"
    by (simp only: xq [symmetric])
  then have r: "real_of_int (round_half_even (x / q)) * q = x"
    by (simp only: round_half_even_int xq [symmetric])
  show ?thesis
    unfolding to_double_def Let_def q_def [symmetric] using nz fin by (simp add: r)
qed

lemma binade_eq:
  assumes "2 powr real_of_int k \<le> \<bar>x\<bar>" and "\<bar>x\<bar> < 2 powr real_of_int (k + 1)"
    and "- 1022 \<le> k"
  shows "binade x = k"
proof -
  have "0 < \<bar>x\<bar>"
    using assms(1) powr_gt_zero [of 2 "real_of_int k"] by linarith
  then have "\<lfloor>log 2 \<bar>x\<bar>\<rfloor> = k"
    using floor_log_eq_powr_iff [of "\<bar>x\<bar>" 2 k] assms by simp
  then show ?thesis using assms(3) by (simp add: binade_def)
qed

lemma to_double_power_of_two:
  assumes "- 1022 \<le> k" and "k \<le> 1023"
  shows "to_double (2 powr real_of_int k) = Num (2 powr real_of_int k)"
proof -
  define M :: int where "M = 2 ^ 52"
  have M: "real_of_int M = 2 powr 52"
    by (simp add: M_def powr_numeral)
  show ?thesis
  proof (rule to_double_exact [where m = M])
    show "2 powr real_of_int k \<noteq> 0" by simp
    have b: "binade (2 powr real_of_int k) = k"
      using assms(1) by (intro binade_eq) simp_all
    have "2 powr 52 * 2 powr real_of_int (k - 52) = 2 powr real_of_int k"
      by (simp add: powr_add [symmetric])
    then show "2 powr real_of_int k
        = real_of_int M * 2 powr real_of_int (binade (2 powr real_of_int k) - 52)"
      by (simp only: b M)
    have "2 powr real_of_int k < 2 powr 1024"
      using assms(2) by (intro powr_less_mono) simp_all
    then show "\<bar>2 powr real_of_int k\<bar> < overflow_threshold"
      by (simp add: overflow_threshold_def)
  qed
qed

lemma to_double_small_int:
  assumes "2 ^ n \<le> \<bar>m\<bar>" and "\<bar>m\<bar> < 2 ^ Suc n" and "n \<le> 52"
  shows "to_double (real_of_int m) = Num (real_of_int m)"
proof (rule to_double_exact [where m = "m * 2 ^ (52 - n)"])
  show "real_of_int m \<noteq> 0" using assms(1) by auto
  have p: "(2::real) powr real n = 2 ^ n" "(2::real) powr (real n + 1) = 2 * 2 ^ n"
    by (simp_all add: powr_realpow powr_add)
  have "real_of_int (2 ^ n) \<le> real_of_int \<bar>m\<bar>" "real_of_int \<bar>m\<bar> < real_of_int (2 ^ Suc n)"
    using assms(1,2) by linarith+
  then have bounds: "2 ^ n \<le> \<bar>real_of_int m\<bar>" "\<bar>real_of_int m\<bar> < 2 * 2 ^ n"
    by simp_all
  have b: "binade (real_of_int m) = int n"
    using bounds by (intro binade_eq) (simp_all add: p)
  have "(2::real) ^ (52 - n) = 2 powr real (52 - n)"
    by (simp add: powr_realpow)
  then have "(2::real) ^ (52 - n) * 2 powr real_of_int (int n - 52)
      = 2 powr (real (52 - n) + real_of_int (int n - 52))"
    by (simp only: powr_add)
  also have "real (52 - n) + real_of_int (int n - 52) = 0"
    using assms(3) by (simp add: of_nat_diff)
  finally have one: "(2::real) ^ (52 - n) * 2 powr real_of_int (int n - 52) = 1"
    by simp
  have "real_of_int (m * 2 ^ (52 - n)) * 2 powr real_of_int (int n - 52)
      = real_of_int m * (2 ^ (52 - n) * 2 powr real_of_int (int n - 52))"
    by simp
  then show "real_of_int m
      = real_of_int (m * 2 ^ (52 - n)) * 2 powr real_of_int (binade (real_of_int m) - 52)"
    by (simp only: b one mult_1_right)
  have "\<bar>real_of_int m\<bar> < 2 powr real_of_int (int n + 1)"
    using bounds(2) by (simp add: p)
  also have "\<dots> \<le> 2 powr 1024"
    using assms(3) by (intro powr_mono) simp_all
  finally show "\<bar>real_of_int m\<bar> < overflow_threshold"
    by (simp add: overflow_threshold_def)
qed

text \<open>
  C1, as stated, fails for steps far from zero.  Under 12-EDO at the default base
  frequency 440, step 12192 has the quotient 1016 and the power \<open>2 powr 1016\<close>, both
  without rounding; the product \<open>440 * 2 powr 1016\<close> is beyond the largest double, and
  \<open>getFrequency\<close> returns \<open>Infinity\<close>, which is within no tolerance of the
  frequency.
\<close>

theorem getFrequency_double_overflow:
  "getFrequency_double pow2_rounded (new_TuningSystem None) ''12-edo'' 12192 = PlusInfinity \<and>
   \<not> within_tolerance
      (getFrequency_double pow2_rounded (new_TuningSystem None) ''12-edo'' 12192)
      (440 * 2 powr (12192 / 12))"
proof -
  have "to_double (real_of_int 1016) = Num (real_of_int 1016)"
    by (rule to_double_small_int [where n = 9]) simp_all
  then have quot: "double_div 12192 12 = Num 1016"
    by (simp add: double_div_def)
  have "to_double (2 powr real_of_int 1016) = Num (2 powr real_of_int 1016)"
    by (rule to_double_power_of_two) simp_all
  then have ratio: "pow2_rounded (Num 1016) = Num (2 powr 1016)"
    by (simp add: pow2_rounded_def)
  have "(2::real) powr (8 + 1016) = 2 powr 8 * 2 powr 1016"
    by (rule powr_add)
  moreover have "(2::real) powr 8 = 256"
    by (simp add: powr_numeral)
  ultimately have "overflow_threshold = 256 * 2 powr 1016"
    by (simp add: overflow_threshold_def)
  moreover have "(256::real) * 2 powr 1016 \<le> 440 * 2 powr 1016"
    by (intro mult_right_mono) simp_all
  ultimately have "overflow_threshold \<le> 440 * 2 powr 1016" by simp
  then have "to_double (440 * 2 powr 1016) = PlusInfinity"
    by (rule to_double_overflow)
  then have "getFrequency_double pow2_rounded (new_TuningSystem None) ''12-edo'' 12192
      = PlusInfinity"
    by (simp add: getFrequency_double_def getEDOFrequency_double_def quot ratio
        new_TuningSystem_def)
  then show ?thesis
    by (simp add: within_tolerance_def)
qed

lemma small_powers:
  "(2::real) powr (- 53) = 1 / 2 ^ 53"
  "(2::real) powr (- 50) = 1 / 2 ^ 50"
  "(2::real) powr 10 = 2 ^ 10"
  "(2::real) powr (- 6) = 1 / 2 ^ 6"
  by (simp_all add: powr_minus_divide powr_numeral)

text \<open>The correctly rounded power is accurate in the sense required.\<close>

lemma pow2_rounded_accurate: "pow_accurate pow2_rounded"
  unfolding pow_accurate_def
proof (intro allI impI)
  fix t :: real
  assume t: "\<bar>t\<bar> \<le> 1022"
  have lo: "2 powr (- 1022) \<le> \<bar>2 powr t\<bar>"
    using t by (simp only: abs_of_pos powr_gt_zero) (intro powr_mono, simp_all)
  have hi: "\<bar>2 powr t\<bar> \<le> 2 powr 1023"
    using t by (simp only: abs_of_pos powr_gt_zero) (intro powr_mono, simp_all)
  obtain r where r: "to_double (2 powr t) = Num r"
      "\<bar>r - 2 powr t\<bar> \<le> 2 powr (- 53) * \<bar>2 powr t\<bar>"
    using to_double_rel [OF lo hi] by blast
  have "(2::real) powr (- 53) \<le> 2 powr (- 50)"
    by (intro powr_mono) simp_all
  then have "2 powr (- 53) * \<bar>2 powr t\<bar> \<le> 2 powr (- 50) * 2 powr t"
    by (simp add: mult_right_mono)
  then have "\<bar>r - 2 powr t\<bar> \<le> 2 powr (- 50) * 2 powr t"
    using r(2) by linarith
  then show "\<exists>p. pow2_rounded (Num t) = Num p \<and> \<bar>p - 2 powr t\<bar> \<le> 2 powr (- 50) * 2 powr t"
    using r(1) by (simp add: pow2_rounded_def)
qed

text \<open>
  The error of the rounded quotient reaches the result through the power: a change of
  the exponent by \<open>t\<close> changes the power by a factor within \<open>2 * \<bar>t\<bar>\<close> of 1.
\<close>

lemma pow2_perturb:
  fixes x t :: real
  assumes "\<bar>t\<bar> \<le> 1 / 2"
  shows "\<bar>2 powr (x + t) - 2 powr x\<bar> \<le> 2 * \<bar>t\<bar> * 2 powr x"
proof -
  define u where "u = t * ln 2"
  have "2 \<le> exp (1::real)"
    using exp_ge_add_one_self [of 1] by simp
  then have "ln (2::real) \<le> ln (exp 1)"
    by (subst ln_le_cancel_iff) simp_all
  then have ln2: "0 < ln (2::real)" "ln (2::real) \<le> 1"
    by simp_all
  have "\<bar>u\<bar> = \<bar>t\<bar> * ln 2"
    using ln2 by (simp add: u_def abs_mult)
  also have "\<dots> \<le> \<bar>t\<bar> * 1"
    using ln2 by (intro mult_left_mono) simp_all
  finally have u: "\<bar>u\<bar> \<le> \<bar>t\<bar>" by simp
  have e: "2 powr t = exp u"
    by (simp add: powr_def u_def)
  have lower: "1 - \<bar>t\<bar> \<le> exp u"
    using exp_ge_add_one_self [of u] u by linarith
  have upper: "exp u \<le> 1 + 2 * \<bar>t\<bar>"
  proof (cases "0 \<le> u")
    case True
    moreover have "u \<le> 1 / 2" using u assms by linarith
    ultimately have "exp u \<le> 1 + 2 * u" by (rule real_exp_bound_lemma)
    then show ?thesis using u by linarith
  next
    case False
    then have "exp u \<le> 1" by simp
    then show ?thesis by linarith
  qed
  have "\<bar>exp u - 1\<bar> \<le> 2 * \<bar>t\<bar>"
    using lower upper by linarith
  then have "\<bar>exp u - 1\<bar> * 2 powr x \<le> 2 * \<bar>t\<bar> * 2 powr x"
    by (intro mult_right_mono) simp_all
  moreover have "2 powr (x + t) - 2 powr x = (exp u - 1) * 2 powr x"
    by (simp add: powr_add e algebra_simps)
  ultimately show ?thesis
    by (simp add: abs_mult)
qed

text \<open>The three rounding errors together stay below the tolerance.\<close>

lemma combine_errors:
  fixes P P' p b r :: real
  assumes P: "0 < P"
    and a: "\<bar>P' - P\<bar> \<le> P / 2 ^ 42"
    and c: "\<bar>p - P'\<bar> \<le> P' / 2 ^ 50"
    and m: "\<bar>r - b * p\<bar> \<le> \<bar>b * p\<bar> / 2 ^ 53"
  shows "\<bar>r - b * P\<bar> \<le> \<bar>b * P\<bar> / 10 ^ 9"
proof -
  have "P / 2 ^ 42 \<le> P" using P by simp
  then have P'_hi: "P' \<le> 2 * P" using a by linarith
  have pP: "\<bar>p - P\<bar> \<le> P * (1 / 2 ^ 49 + 1 / 2 ^ 42)"
  proof -
    have "\<bar>p - P\<bar> \<le> \<bar>p - P'\<bar> + \<bar>P' - P\<bar>" by linarith
    also have "\<dots> \<le> P' / 2 ^ 50 + P / 2 ^ 42" using a c by linarith
    also have "\<dots> \<le> (2 * P) / 2 ^ 50 + P / 2 ^ 42"
      using P'_hi by (simp add: divide_right_mono)
    also have "\<dots> = P * (1 / 2 ^ 49 + 1 / 2 ^ 42)" by (simp add: algebra_simps)
    finally show ?thesis .
  qed
  define W where "W = \<bar>b\<bar> * P"
  have W: "\<bar>b * P\<bar> = W" "0 \<le> W"
    using P by (simp_all add: W_def abs_mult)
  have "\<bar>b * p - b * P\<bar> = \<bar>b\<bar> * \<bar>p - P\<bar>"
    by (simp add: abs_mult [symmetric] right_diff_distrib)
  also have "\<dots> \<le> \<bar>b\<bar> * (P * (1 / 2 ^ 49 + 1 / 2 ^ 42))"
    using pP by (intro mult_left_mono) simp_all
  also have "\<dots> = W * (1 / 2 ^ 49 + 1 / 2 ^ 42)"
    by (simp add: W_def)
  finally have bp: "\<bar>b * p - b * P\<bar> \<le> W * (1 / 2 ^ 49 + 1 / 2 ^ 42)" .
  have "\<bar>b * p\<bar> \<le> \<bar>b * P\<bar> + \<bar>b * p - b * P\<bar>" by linarith
  then have "\<bar>b * p\<bar> \<le> W + W * (1 / 2 ^ 49 + 1 / 2 ^ 42)"
    using bp W by linarith
  also have "\<dots> \<le> 2 * W" using W(2) by simp
  finally have "\<bar>b * p\<bar> / 2 ^ 53 \<le> (2 * W) / 2 ^ 53"
    by (simp add: divide_right_mono)
  then have "\<bar>r - b * p\<bar> \<le> W * (1 / 2 ^ 52)"
    using m by simp
  then have "\<bar>r - b * P\<bar> \<le> W * (1 / 2 ^ 52) + W * (1 / 2 ^ 49 + 1 / 2 ^ 42)"
    using bp by linarith
  also have "\<dots> = W * (1 / 2 ^ 52 + 1 / 2 ^ 49 + 1 / 2 ^ 42)"
    by (simp add: algebra_simps)
  also have "\<dots> \<le> W * (1 / 10 ^ 9)"
    using W(2) by (intro mult_left_mono) simp_all
  finally show ?thesis by (simp add: W)
qed

lemma ratio_bounds:
  fixes P P' p :: real
  assumes P: "0 < P"
    and a: "\<bar>P' - P\<bar> \<le> P / 2 ^ 42"
    and c: "\<bar>p - P'\<bar> \<le> P' / 2 ^ 50"
  shows "P / 2 \<le> p" and "p \<le> 2 * P"
proof -
  have "P / 2 ^ 42 \<le> P / 4" using P by simp
  then have P': "P' \<le> P + P / 4" "P - P / 4 \<le> P'" using a by linarith+
  have "P' / 2 ^ 50 \<le> P' / 4" using P' P by (simp add: field_simps)
  then have "\<bar>p - P'\<bar> \<le> P' / 4" using c by linarith
  then show "P / 2 \<le> p" and "p \<le> 2 * P" using P' by linarith+
qed

lemma quotient_rounded:
  assumes d: "0 < d" "d \<le> 53" and s: "\<bar>real_of_int s\<bar> \<le> 1021 * real_of_int d"
  shows "\<exists>xh. double_div (real_of_int s) (real_of_int d) = Num xh \<and>
           \<bar>xh - real_of_int s / real_of_int d\<bar> \<le> 1 / 2 ^ 43 \<and> \<bar>xh\<bar> \<le> 1022"
proof (cases "s = 0")
  case True
  then show ?thesis using d by (simp add: double_div_def to_double_def)
next
  case False
  define x where "x = real_of_int s / real_of_int d"
  have dpos: "0 < real_of_int d" using d by simp
  have "1 \<le> \<bar>s\<bar>" using False by linarith
  then have s1: "1 \<le> \<bar>real_of_int s\<bar>" by linarith
  have ax: "\<bar>x\<bar> = \<bar>real_of_int s\<bar> / real_of_int d"
    using dpos by (simp add: x_def)
  have "1 / 53 \<le> 1 / real_of_int d"
    using d by (simp add: field_simps)
  also have "\<dots> \<le> \<bar>real_of_int s\<bar> / real_of_int d"
    using s1 dpos by (simp add: divide_right_mono)
  finally have x_lo: "1 / 53 \<le> \<bar>x\<bar>" by (simp only: ax)
  have x_hi: "\<bar>x\<bar> \<le> 1021"
    using s dpos by (simp add: ax pos_divide_le_eq)
  have "(2::real) powr (- 1022) \<le> 2 powr (- 6)"
    by (intro powr_mono) simp_all
  then have lo: "2 powr (- 1022) \<le> \<bar>x\<bar>"
    using x_lo by (simp add: small_powers)
  have "(2::real) powr 10 \<le> 2 powr 1023"
    by (intro powr_mono) simp_all
  then have hi: "\<bar>x\<bar> \<le> 2 powr 1023"
    using x_hi by (simp add: small_powers)
  obtain xh where xh: "to_double x = Num xh" "\<bar>xh - x\<bar> \<le> 2 powr (- 53) * \<bar>x\<bar>"
    using to_double_rel [OF lo hi] by blast
  have "2 powr (- 53) * \<bar>x\<bar> \<le> 2 powr (- 53) * 1021"
    using x_hi by (intro mult_left_mono) simp_all
  also have "\<dots> \<le> 1 / 2 ^ 43"
    by (simp add: small_powers)
  finally have err: "\<bar>xh - x\<bar> \<le> 1 / 2 ^ 43"
    using xh(2) by linarith
  have "(1::real) / 2 ^ 43 \<le> 1" by simp
  then have "\<bar>xh\<bar> \<le> 1022" using err x_hi by linarith
  then show ?thesis
    using xh(1) err d by (simp add: double_div_def x_def)
qed

lemma getEDOFrequency_double_tolerance:
  assumes acc: "pow_accurate pw"
    and d: "0 < d" "d \<le> 53"
    and s: "\<bar>real_of_int s\<bar> \<le> 1021 * real_of_int d"
    and lo: "2 powr (- 1021) \<le> \<bar>baseFrequency ts\<bar> * 2 powr (real_of_int s / real_of_int d)"
    and hi: "\<bar>baseFrequency ts\<bar> * 2 powr (real_of_int s / real_of_int d) \<le> 2 powr 1022"
  shows "within_tolerance (getEDOFrequency_double pw ts s d 0)
           (baseFrequency ts * 2 powr (real_of_int s / real_of_int d))"
proof -
  define b where "b = baseFrequency ts"
  define x where "x = real_of_int s / real_of_int d"
  define P where "P = 2 powr x"
  have Ppos: "0 < P" by (simp add: P_def)
  obtain xh where xh: "double_div (real_of_int s) (real_of_int d) = Num xh"
      "\<bar>xh - x\<bar> \<le> 1 / 2 ^ 43" "\<bar>xh\<bar> \<le> 1022"
    using quotient_rounded [OF d s] by (auto simp: x_def)
  define P' where "P' = 2 powr xh"
  obtain p where p: "pw (Num xh) = Num p" "\<bar>p - P'\<bar> \<le> 2 powr (- 50) * P'"
    using acc xh(3) by (auto simp: pow_accurate_def P'_def)
  have c: "\<bar>p - P'\<bar> \<le> P' / 2 ^ 50"
    using p(2) by (simp add: small_powers)
  have "(1::real) / 2 ^ 43 \<le> 1 / 2" by simp
  then have "\<bar>xh - x\<bar> \<le> 1 / 2" using xh(2) by linarith
  then have "\<bar>2 powr (x + (xh - x)) - 2 powr x\<bar> \<le> 2 * \<bar>xh - x\<bar> * 2 powr x"
    by (rule pow2_perturb)
  then have "\<bar>P' - P\<bar> \<le> 2 * \<bar>xh - x\<bar> * P"
    by (simp add: P'_def P_def)
  also have "\<dots> \<le> 2 * (1 / 2 ^ 43) * P"
    using xh(2) Ppos by (intro mult_right_mono mult_left_mono) simp_all
  also have "\<dots> = P / 2 ^ 42" by simp
  finally have a: "\<bar>P' - P\<bar> \<le> P / 2 ^ 42" .
  have pb: "P / 2 \<le> p" "p \<le> 2 * P"
    using ratio_bounds [OF Ppos a c] by simp_all
  then have ppos: "0 < p" using Ppos by linarith
  define W where "W = \<bar>b\<bar> * P"
  have W: "2 powr (- 1021) \<le> W" "W \<le> 2 powr 1022"
    using lo hi by (simp_all add: W_def b_def P_def x_def)
  have bp: "\<bar>b * p\<bar> = \<bar>b\<bar> * p"
    using ppos by (simp add: abs_mult)
  have "\<bar>b\<bar> * (P / 2) \<le> \<bar>b\<bar> * p" "\<bar>b\<bar> * p \<le> \<bar>b\<bar> * (2 * P)"
    using pb by (intro mult_left_mono; simp)+
  then have bp_bounds: "W / 2 \<le> \<bar>b * p\<bar>" "\<bar>b * p\<bar> \<le> 2 * W"
    by (simp_all add: bp W_def)
  have "(2::real) powr (- 1021 + (- 1)) = 2 powr (- 1021) * 2 powr (- 1)"
    by (rule powr_add)
  moreover have "(2::real) powr (- 1) = 1 / 2"
    by (simp add: powr_minus_divide)
  ultimately have "(2::real) powr (- 1022) = 2 powr (- 1021) / 2" by simp
  then have lo': "2 powr (- 1022) \<le> \<bar>b * p\<bar>"
    using W(1) bp_bounds(1) by linarith
  have "(2::real) powr (1 + 1022) = 2 powr 1 * 2 powr 1022"
    by (rule powr_add)
  then have "(2::real) powr 1023 = 2 * 2 powr 1022" by simp
  then have hi': "\<bar>b * p\<bar> \<le> 2 powr 1023"
    using W(2) bp_bounds(2) by linarith
  obtain r where r: "to_double (b * p) = Num r" "\<bar>r - b * p\<bar> \<le> 2 powr (- 53) * \<bar>b * p\<bar>"
    using to_double_rel [OF lo' hi'] by blast
  have m: "\<bar>r - b * p\<bar> \<le> \<bar>b * p\<bar> / 2 ^ 53"
    using r(2) by (simp add: small_powers)
  have "\<bar>r - b * P\<bar> \<le> \<bar>b * P\<bar> / 10 ^ 9"
    by (rule combine_errors [OF Ppos a c m])
  moreover have "getEDOFrequency_double pw ts s d 0 = Num r"
    using xh(1) p(1) r(1) by (simp add: getEDOFrequency_double_def b_def)
  ultimately show ?thesis
    by (simp add: within_tolerance_def b_def P_def x_def)
qed

text \<open>
  The frequencies of the exact reading are the ones the doubles approximate.
\<close>

lemma getFrequency_double_approximates:
  assumes "pow_accurate pw"
    and "(tuningType, d) \<in> {(''12-edo'', 12), (''24-edo'', 24), (''31-edo'', 31), (''53-edo'', 53)}"
    and "\<bar>real_of_int s\<bar> \<le> 1021 * real_of_int d"
    and "2 powr (- 1021) \<le> \<bar>baseFrequency ts\<bar> * 2 powr (real_of_int s / real_of_int d)"
    and "\<bar>baseFrequency ts\<bar> * 2 powr (real_of_int s / real_of_int d) \<le> 2 powr 1022"
  shows "\<exists>v. getFrequency ts tuningType s = Some v \<and>
           within_tolerance (getFrequency_double pw ts tuningType s) v"
proof -
  have d: "0 < d" "d \<le> 53" using assms(2) by auto
  have "getFrequency_double pw ts tuningType s = getEDOFrequency_double pw ts s d 0"
    using assms(2) by (auto simp: getFrequency_double_def)
  moreover have "getFrequency ts tuningType s
      = Some (baseFrequency ts * 2 powr (real_of_int s / real_of_int d))"
    using assms(2)
    by (auto simp: getFrequency_def get12EDO_def get24EDO_def get31EDO_def get53EDO_def
        getEDOFrequency_def pow2_def)
  ultimately show ?thesis
    using getEDOFrequency_double_tolerance [OF assms(1) d assms(3) assms(4) assms(5)] by simp
qed

text \<open>
  C1, amended.  For each of the identifiers \<open>12-edo\<close>, \<open>24-edo\<close>, \<open>31-edo\<close> and
  \<open>53-edo\<close> with its division count \<open>d\<close> of 12, 24, 31 and 53, every \<open>Math.pow\<close>
  with a relative error of at most \<open>2 powr (- 50)\<close>, every step of magnitude at most
  \<open>1021 * d\<close> and every base frequency for which the magnitude of the base frequency
  times two to the power of the step over \<open>d\<close> lies between \<open>2 powr (- 1021)\<close> and
  \<open>2 powr 1022\<close>, the double that \<open>getFrequency\<close> returns is finite and agrees with
  that frequency within the relative tolerance \<open>1e-9\<close>.
\<close>

theorem getFrequency_double_within_tolerance:
  assumes "pow_accurate pw"
    and "(tuningType, d) \<in> {(''12-edo'', 12), (''24-edo'', 24), (''31-edo'', 31), (''53-edo'', 53)}"
    and "\<bar>real_of_int s\<bar> \<le> 1021 * real_of_int d"
    and "2 powr (- 1021) \<le> \<bar>baseFrequency ts\<bar> * 2 powr (real_of_int s / real_of_int d)"
    and "\<bar>baseFrequency ts\<bar> * 2 powr (real_of_int s / real_of_int d) \<le> 2 powr 1022"
  shows "within_tolerance (getFrequency_double pw ts tuningType s)
           (baseFrequency ts * 2 powr (real_of_int s / real_of_int d))"
proof -
  have d: "0 < d" "d \<le> 53" using assms(2) by auto
  have "getFrequency_double pw ts tuningType s = getEDOFrequency_double pw ts s d 0"
    using assms(2) by (auto simp: getFrequency_double_def)
  then show ?thesis
    using getEDOFrequency_double_tolerance [OF assms(1) d assms(3) assms(4) assms(5)] by simp
qed

theorem getFrequency_double_within_tolerance_witness:
  "\<bar>real_of_int 12\<bar> \<le> 1021 * real_of_int 12 \<and>
   getFrequency_double pow2_rounded (new_TuningSystem None) ''12-edo'' 12 = Num 880 \<and>
   within_tolerance (getFrequency_double pow2_rounded (new_TuningSystem None) ''12-edo'' 12)
     (baseFrequency (new_TuningSystem None) * 2 powr (real_of_int 12 / real_of_int 12))"
proof -
  have h1: "(''12-edo'', 12) \<in> {(''12-edo'', 12::int), (''24-edo'', 24), (''31-edo'', 31), (''53-edo'', 53)}"
    by simp
  have h2: "\<bar>real_of_int 12\<bar> \<le> 1021 * real_of_int 12" by simp
  have v: "baseFrequency (new_TuningSystem None) * 2 powr (real_of_int 12 / real_of_int 12) = 880"
    by (simp add: new_TuningSystem_def)
  have "(2::real) powr (- 1021) \<le> 2 powr 0"
    by (intro powr_mono) simp_all
  then have h3: "2 powr (- 1021) \<le> \<bar>baseFrequency (new_TuningSystem None)\<bar>
      * 2 powr (real_of_int 12 / real_of_int 12)"
    by (simp add: new_TuningSystem_def)
  have "(2::real) powr 10 \<le> 2 powr 1022"
    by (intro powr_mono) simp_all
  then have h4: "\<bar>baseFrequency (new_TuningSystem None)\<bar>
      * 2 powr (real_of_int 12 / real_of_int 12) \<le> 2 powr 1022"
    by (simp add: new_TuningSystem_def small_powers)
  have one: "to_double (real_of_int 1) = Num (real_of_int 1)"
    by (rule to_double_small_int [where n = 0]) simp_all
  have two: "to_double (2 powr real_of_int 1) = Num (2 powr real_of_int 1)"
    by (rule to_double_power_of_two) simp_all
  have prod: "to_double (real_of_int 880) = Num (real_of_int 880)"
    by (rule to_double_small_int [where n = 9]) simp_all
  have val: "getFrequency_double pow2_rounded (new_TuningSystem None) ''12-edo'' 12 = Num 880"
    using one two prod
    by (simp add: getFrequency_double_def getEDOFrequency_double_def double_div_def
        pow2_rounded_def new_TuningSystem_def)
  from getFrequency_double_within_tolerance [OF pow2_rounded_accurate h1 h2 h3 h4] h2 val
  show ?thesis by simp
qed

end
